theory Spec2Isabelle
  imports Complex_Main
begin

section \<open>JavaScript numbers\<close>

text \<open>
  The program is TypeScript; every \<open>number\<close> is an IEEE 754 binary64 value.  Numbers
  are modelled as reals.  The arithmetic of the beat clock is rounded after every
  operation, as the program's is (\<open>toDouble\<close> below); the tap tempo and the beat detector
  are modelled over exact reals.  Quantities that the program only ever assigns from
  integer literals and from \<open>Math.floor\<close> / \<open>Math.round\<close> (beat counts, BPM estimates,
  histogram keys and counts) are integers.
  Divisions by a zero beat duration or BPM give infinities and NaN in the program and
  are kept out of the theorems by an explicit hypothesis.
  Every call of \<open>performance.now()\<close> is an explicit argument \<open>now\<close> of the
  operation that makes it.
\<close>

text \<open>\<open>Math.floor\<close>.\<close>

definition jsFloor :: "real \<Rightarrow> int" where
  "jsFloor x = \<lfloor>x\<rfloor>"

text \<open>\<open>Math.round\<close>: the nearest integer, a tie going up.\<close>

definition jsRound :: "real \<Rightarrow> int" where
  "jsRound x = \<lfloor>x + 1 / 2\<rfloor>"

text \<open>The operator \<open>%\<close>: the remainder of the truncated division (sign of the dividend).\<close>

definition jsRem :: "real \<Rightarrow> real \<Rightarrow> real" where
  "jsRem a b = a - b * of_int (if a / b < 0 then \<lceil>a / b\<rceil> else \<lfloor>a / b\<rfloor>)"

subsection \<open>Rounding to binary64\<close>

text \<open>
  Round to nearest, ties to even, with a significand of 53 bits: \<open>expo x\<close> is the binary
  exponent of \<open>x\<close>, \<open>ulp x\<close> the spacing of the doubles around \<open>x\<close>, and \<open>toDouble x\<close> the
  multiple of \<open>ulp x\<close> nearest to \<open>x\<close>.  The exponent is not bounded here: \<open>toDouble\<close> is
  the program's rounding for every result that is zero or of magnitude between
  \<open>2 powi -1022\<close> and \<open>2 powi 1024\<close>.
\<close>

definition roundEven :: "real \<Rightarrow> int" where
  "roundEven y =
     (let f = \<lfloor>y\<rfloor>; r = y - of_int f
      in if r < 1 / 2 then f else if r > 1 / 2 then f + 1
         else if even f then f else f + 1)"

definition expo :: "real \<Rightarrow> int" where
  "expo x = \<lfloor>log 2 \<bar>x\<bar>\<rfloor>"

definition ulp :: "real \<Rightarrow> real" where
  "ulp x = 2 powi (expo x - 52)"

definition toDouble :: "real \<Rightarrow> real" where
  "toDouble x = (if x = 0 then 0 else of_int (roundEven (x / ulp x)) * ulp x)"

text \<open>The operators \<open>-\<close>, \<open>*\<close> and \<open>/\<close> on doubles: the exact result, rounded.  The
  remainder \<open>%\<close> of two doubles is a double, so \<open>jsRem\<close> needs no rounding.\<close>

definition jsSub :: "real \<Rightarrow> real \<Rightarrow> real" where
  "jsSub a b = toDouble (a - b)"

definition jsMul :: "real \<Rightarrow> real \<Rightarrow> real" where
  "jsMul a b = toDouble (a * b)"

definition jsDiv :: "real \<Rightarrow> real \<Rightarrow> real" where
  "jsDiv a b = toDouble (a / b)"

section \<open>Manual beat clock (class BeatClock)\<close>

record BeatInfo =
  phase :: real
  intensity :: real
  isOnset :: bool
  info_bpm :: real

record BeatClock =
  bpm :: real
  startTime :: real
  lastBeatTime :: real
  beatCount :: int
  isRunning :: bool

text \<open>The constructor, with the field initialisers.\<close>

definition newBeatClock :: "real \<Rightarrow> BeatClock" where
  "newBeatClock b =
     \<lparr>bpm = b, startTime = 0, lastBeatTime = 0, beatCount = 0, isRunning = False\<rparr>"

definition start :: "real \<Rightarrow> BeatClock \<Rightarrow> BeatClock" where
  "start now c = c\<lparr>startTime := now, lastBeatTime := now, beatCount := 0, isRunning := True\<rparr>"

definition stop :: "BeatClock \<Rightarrow> BeatClock" where
  "stop c = c\<lparr>isRunning := False\<rparr>"

definition getPhase :: "real \<Rightarrow> BeatClock \<Rightarrow> real" where
  "getPhase now c =
     (if \<not> isRunning c then 0
      else let beatDuration = jsDiv 60000 (bpm c);
               elapsed = jsSub now (startTime c)
           in jsDiv (jsRem elapsed beatDuration) beatDuration)"

text \<open>
  \<open>setBPM\<close> reads the clock twice: \<open>now1\<close> inside \<open>getPhase\<close>, then \<open>now2\<close> for the
  new start time.
\<close>

definition setBPM :: "real \<Rightarrow> real \<Rightarrow> real \<Rightarrow> BeatClock \<Rightarrow> BeatClock" where
  "setBPM now1 now2 b c =
     (if b \<noteq> bpm c then
        let currentPhase = getPhase now1 c;
            beatDuration = jsDiv 60000 b
        in c\<lparr>bpm := b, startTime := jsSub now2 (jsMul currentPhase beatDuration)\<rparr>
      else c)"

definition getBPM :: "BeatClock \<Rightarrow> real" where
  "getBPM c = bpm c"

text \<open>The literal \<open>0.3\<close> is the double nearest to 3/10.\<close>

definition update :: "real \<Rightarrow> BeatClock \<Rightarrow> BeatInfo \<times> BeatClock" where
  "update now c =
     (if \<not> isRunning c then
        (\<lparr>phase = 0, intensity = 0, isOnset = False, info_bpm = bpm c\<rparr>, c)
      else
        let beatDuration = jsDiv 60000 (bpm c);
            elapsed = jsSub now (startTime c);
            ph = jsDiv (jsRem elapsed beatDuration) beatDuration;
            currentBeat = jsFloor (jsDiv elapsed beatDuration);
            onset = (currentBeat > beatCount c);
            c' = (if onset then c\<lparr>beatCount := currentBeat, lastBeatTime := now\<rparr> else c);
            timeSinceLastBeat = jsSub now (lastBeatTime c');
            decayTime = jsMul beatDuration (toDouble 0.3);
            inten = max 0 (jsSub 1 (jsDiv timeSinceLastBeat decayTime))
        in (\<lparr>phase = ph, intensity = inten, isOnset = onset, info_bpm = bpm c\<rparr>, c'))"

text \<open>A run of \<open>update\<close> calls at the given clock readings; the emissions in order.\<close>

fun updates :: "real list \<Rightarrow> BeatClock \<Rightarrow> BeatInfo list \<times> BeatClock" where
  "updates [] c = ([], c)"
| "updates (t # ts) c =
     (let (info, c') = update t c;
          (infos, c'') = updates ts c'
      in (info # infos, c''))"

section \<open>Tap tempo (class TapTempo)\<close>

text \<open>The private fields \<open>maxTaps\<close> and \<open>maxInterval\<close> are never assigned after their
  initialisers; they are constants here.\<close>

definition maxTaps :: nat where
  "maxTaps = 8"

definition maxInterval :: real where
  "maxInterval = 2000"

record TapTempo =
  taps :: "real list"

definition newTapTempo :: TapTempo where
  "newTapTempo = \<lparr>taps = []\<rparr>"

text \<open>The loop that adds up \<open>taps[i] - taps[i - 1]\<close> for \<open>i\<close> from 1.\<close>

fun totalInterval :: "real list \<Rightarrow> real \<Rightarrow> real" where
  "totalInterval (x # y # ys) acc = totalInterval (y # ys) (acc + (y - x))"
| "totalInterval _ acc = acc"

text \<open>
  \<open>tap\<close> returns \<open>None\<close> for the program's \<open>null\<close>.  Two taps at the same clock
  reading give a zero average interval: the program divides to \<open>Infinity\<close>, which
  \<open>Math.round\<close> keeps and \<open>Math.min\<close> cuts to 200; that branch is written out.
\<close>

definition tap :: "real \<Rightarrow> TapTempo \<Rightarrow> int option \<times> TapTempo" where
  "tap now s =
     (let taps1 = (if length (taps s) > 0 \<and> now - last (taps s) > maxInterval
                   then [] else taps s);
          taps2 = taps1 @ [now];
          taps3 = (if length taps2 > maxTaps then tl taps2 else taps2);
          s' = s\<lparr>taps := taps3\<rparr>
      in if length taps3 < 2 then (None, s')
         else
           let avgInterval = totalInterval taps3 0 / of_nat (length taps3 - 1)
           in if avgInterval = 0 then (Some 200, s')
              else (Some (max 60 (min 200 (jsRound (60000 / avgInterval)))), s'))"

definition tapReset :: "TapTempo \<Rightarrow> TapTempo" where
  "tapReset s = s\<lparr>taps := []\<rparr>"

text \<open>A run of \<open>tap\<close> calls; the results in order.\<close>

fun tapAll :: "real list \<Rightarrow> TapTempo \<Rightarrow> int option list \<times> TapTempo" where
  "tapAll [] s = ([], s)"
| "tapAll (t # ts) s =
     (let (r, s') = tap t s;
          (rs, s'') = tapAll ts s'
      in (r # rs, s''))"

section \<open>Beat detector (class BeatDetector)\<close>

text \<open>
  Modelled from the spec: \<open>clamp\<close> is imported from \<open>utils/math\<close>, which is not among
  the sources; the spec gives the ranges the two setters keep their values in
  (sensitivity in [0,1], smoothing in [0,0.99]).
\<close>

definition clamp :: "real \<Rightarrow> real \<Rightarrow> real \<Rightarrow> real" where
  "clamp v lo hi = max lo (min hi v)"

text \<open>The private fields \<open>historySize\<close>, \<open>maxOnsets\<close> and \<open>minOnsetInterval\<close> are never
  assigned after their initialisers; they are constants here.\<close>

definition historySize :: nat where
  "historySize = 43"

definition maxOnsets :: nat where
  "maxOnsets = 32"

definition minOnsetInterval :: real where
  "minOnsetInterval = 200"

record BeatDetector =
  sampleRate :: real
  sensitivity :: real
  smoothing :: real
  energyHistory :: "real list"
  lastEnergy :: real
  threshold :: real
  onsetTimes :: "real list"
  estimatedBPM :: int
  bpmLocked :: bool
  lockedBPM :: int
  lastOnsetTime :: real

text \<open>The constructor, with the field initialisers.\<close>

definition newBeatDetector :: "real \<Rightarrow> BeatDetector" where
  "newBeatDetector rate =
     \<lparr>sampleRate = rate, sensitivity = 0.5, smoothing = 0.8, energyHistory = [],
      lastEnergy = 0, threshold = 0, onsetTimes = [], estimatedBPM = 140,
      bpmLocked = False, lockedBPM = 140, lastOnsetTime = 0\<rparr>"

definition setSensitivity :: "real \<Rightarrow> BeatDetector \<Rightarrow> BeatDetector" where
  "setSensitivity v s = s\<lparr>sensitivity := clamp v 0 1\<rparr>"

definition setSmoothing :: "real \<Rightarrow> BeatDetector \<Rightarrow> BeatDetector" where
  "setSmoothing v s = s\<lparr>smoothing := clamp v 0 0.99\<rparr>"

subsection \<open>Tempo estimation\<close>

text \<open>The loop over consecutive onsets that keeps the intervals inside (315, 500).\<close>

fun onsetIntervals :: "real list \<Rightarrow> real list" where
  "onsetIntervals (x # y # ys) =
     (let interval = y - x
      in if interval > 315 \<and> interval < 500 then interval # onsetIntervals (y # ys)
         else onsetIntervals (y # ys))"
| "onsetIntervals _ = []"

text \<open>
  The histogram is a JavaScript \<open>Map\<close>, which iterates in insertion order: an
  association list in which \<open>set\<close> on a present key keeps the key's place.
\<close>

fun bucketSet :: "int \<Rightarrow> nat \<Rightarrow> (int \<times> nat) list \<Rightarrow> (int \<times> nat) list" where
  "bucketSet k v [] = [(k, v)]"
| "bucketSet k v ((k', v') # m) =
     (if k' = k then (k, v) # m else (k', v') # bucketSet k v m)"

text \<open>\<open>buckets.get(bucket) || 0\<close>.\<close>

definition bucketGet :: "int \<Rightarrow> (int \<times> nat) list \<Rightarrow> nat" where
  "bucketGet k m = (case map_of m k of None \<Rightarrow> 0 | Some n \<Rightarrow> n)"

fun fillBuckets :: "real list \<Rightarrow> (int \<times> nat) list \<Rightarrow> (int \<times> nat) list" where
  "fillBuckets [] buckets = buckets"
| "fillBuckets (interval # rest) buckets =
     (let bucket = jsRound (interval / 10) * 10
      in fillBuckets rest (bucketSet bucket (bucketGet bucket buckets + 1) buckets))"

text \<open>The loop that finds the most common bucket: the first one with the highest count.\<close>

fun mostCommon :: "(int \<times> nat) list \<Rightarrow> nat \<Rightarrow> int \<Rightarrow> int" where
  "mostCommon [] maxCount bestInterval = bestInterval"
| "mostCommon ((interval, count) # rest) maxCount bestInterval =
     (if count > maxCount then mostCommon rest count interval
      else mostCommon rest maxCount bestInterval)"

text \<open>The smoothing expression \<open>Math.round(estimatedBPM * 0.7 + bpm * 0.3)\<close>.\<close>

definition smoothBPM :: "int \<Rightarrow> int \<Rightarrow> int" where
  "smoothBPM estimated candidate = jsRound (of_int estimated * 0.7 + of_int candidate * 0.3)"

text \<open>
  The last two steps of \<open>estimateBPM\<close>: the best interval is converted to a BPM, and
  the estimate is smoothed towards it when it lies in [120, 190].
\<close>

definition convertAndSmooth :: "int \<Rightarrow> BeatDetector \<Rightarrow> BeatDetector" where
  "convertAndSmooth bestInterval s =
     (let candidate = jsRound (60000 / of_int bestInterval)
      in if candidate \<ge> 120 \<and> candidate \<le> 190
         then s\<lparr>estimatedBPM := smoothBPM (estimatedBPM s) candidate\<rparr>
         else s)"

definition estimateBPM :: "BeatDetector \<Rightarrow> BeatDetector" where
  "estimateBPM s =
     (if length (onsetTimes s) < 4 then s
      else
        let intervals = onsetIntervals (onsetTimes s)
        in if length intervals < 2 then s
           else
             let buckets = fillBuckets intervals [];
                 bestInterval = mostCommon buckets 0 428
             in convertAndSmooth bestInterval s)"

definition recordOnset :: "real \<Rightarrow> BeatDetector \<Rightarrow> BeatDetector" where
  "recordOnset time s =
     (let times1 = onsetTimes s @ [time];
          times = (if length times1 > maxOnsets then tl times1 else times1);
          s' = s\<lparr>onsetTimes := times\<rparr>
      in if \<not> bpmLocked s' then estimateBPM s' else s')"

definition getEstimatedBPM :: "BeatDetector \<Rightarrow> int" where
  "getEstimatedBPM s = (if bpmLocked s then lockedBPM s else estimatedBPM s)"

definition lockBPM :: "BeatDetector \<Rightarrow> BeatDetector" where
  "lockBPM s = s\<lparr>bpmLocked := True, lockedBPM := estimatedBPM s\<rparr>"

definition unlockBPM :: "BeatDetector \<Rightarrow> BeatDetector" where
  "unlockBPM s = s\<lparr>bpmLocked := False\<rparr>"

definition isLocked :: "BeatDetector \<Rightarrow> bool" where
  "isLocked s = bpmLocked s"

definition reset :: "BeatDetector \<Rightarrow> BeatDetector" where
  "reset s = s\<lparr>energyHistory := [], onsetTimes := [], lastEnergy := 0, lastOnsetTime := 0,
              estimatedBPM := 140, bpmLocked := False\<rparr>"

subsection \<open>Onset detection\<close>

text \<open>The two loops that add \<open>x * x * weight\<close> to the running energy.\<close>

fun addSquares :: "real \<Rightarrow> real list \<Rightarrow> real \<Rightarrow> real" where
  "addSquares w [] energy = energy"
| "addSquares w (x # xs) energy = addSquares w xs (energy + x * x * w)"

text \<open>
  The energy of a frame, weighted towards the bass: the first 20 bass bins at weight 0.7,
  the whole spectrum at weight 0.3, divided by the number of bins, square root.  An empty
  frequency frame makes the program's energy NaN (0 / 0); no theorem below depends on
  the energy of such a frame.
\<close>

definition frameEnergy :: "real list \<Rightarrow> real list \<Rightarrow> real" where
  "frameEnergy frequencyData bassData =
     (let bassWeight = 0.7;
          fullWeight = 0.3;
          bassEnergy = addSquares bassWeight (take (min 20 (length bassData)) bassData) 0;
          fullEnergy = addSquares fullWeight frequencyData bassEnergy
      in sqrt (fullEnergy / of_nat (length frequencyData)))"

text \<open>The adaptive threshold over the history: mean plus standard deviation times
  \<open>1.5 - sensitivity\<close>.\<close>

definition adaptiveThreshold :: "real list \<Rightarrow> real \<Rightarrow> real" where
  "adaptiveThreshold history sens =
     (let avgEnergy = foldl (\<lambda>a b. a + b) 0 history / of_nat (length history);
          variance = foldl (\<lambda>a b. a + (b - avgEnergy)\<^sup>2) 0 history / of_nat (length history);
          stdDev = sqrt variance;
          sensitivityFactor = 1.5 - sens
      in avgEnergy + stdDev * sensitivityFactor)"

text \<open>\<open>detectOnset\<close> returns the flag and the new state.\<close>

definition detectOnset :: "real \<Rightarrow> real list \<Rightarrow> real list \<Rightarrow> BeatDetector \<Rightarrow> bool \<times> BeatDetector" where
  "detectOnset now frequencyData bassData s =
     (let rawEnergy = frameEnergy frequencyData bassData;
          energy = lastEnergy s * smoothing s + rawEnergy * (1 - smoothing s);
          history1 = energyHistory s @ [energy];
          history = (if length history1 > historySize then tl history1 else history1);
          s1 = s\<lparr>lastEnergy := energy, energyHistory := history\<rparr>
      in if length history < 10 then (False, s1)
         else
           let s2 = s1\<lparr>threshold := adaptiveThreshold history (sensitivity s1)\<rparr>;
               onset = (energy > threshold s2 \<and> now - lastOnsetTime s2 > minOnsetInterval)
           in if onset then (True, recordOnset now (s2\<lparr>lastOnsetTime := now\<rparr>))
              else (False, s2))"

subsection \<open>Runs of operations\<close>

text \<open>A run of \<open>recordOnset\<close> calls, one per timestamp.\<close>

fun recordOnsets :: "real list \<Rightarrow> BeatDetector \<Rightarrow> BeatDetector" where
  "recordOnsets [] s = s"
| "recordOnsets (t # ts) s = recordOnsets ts (recordOnset t s)"

text \<open>The \<open>n\<close> timestamps \<open>t0\<close>, \<open>t0 + I\<close>, \<open>t0 + 2 I\<close>, ...: onsets at a constant interval.\<close>

definition steadyOnsets :: "real \<Rightarrow> real \<Rightarrow> nat \<Rightarrow> real list" where
  "steadyOnsets t0 I n = map (\<lambda>k. t0 + of_nat k * I) [0..<n]"

text \<open>A run of \<open>detectOnset\<close> calls, one per frame (clock reading, spectrum, bass slice).\<close>

fun detectOnsets :: "(real \<times> real list \<times> real list) list \<Rightarrow> BeatDetector
                      \<Rightarrow> bool list \<times> BeatDetector" where
  "detectOnsets [] s = ([], s)"
| "detectOnsets ((now, frequencyData, bassData) # frames) s =
     (let (r, s') = detectOnset now frequencyData bassData s;
          (rs, s'') = detectOnsets frames s'
      in (r # rs, s''))"

text \<open>The public operations of the detector that change its state.\<close>

datatype detectorOp =
    SetSensitivity real
  | SetSmoothing real
  | DetectOnset real "real list" "real list"
  | LockBPM
  | UnlockBPM
  | Reset

fun applyOp :: "detectorOp \<Rightarrow> BeatDetector \<Rightarrow> BeatDetector" where
  "applyOp (SetSensitivity v) s = setSensitivity v s"
| "applyOp (SetSmoothing v) s = setSmoothing v s"
| "applyOp (DetectOnset now frequencyData bassData) s =
     snd (detectOnset now frequencyData bassData s)"
| "applyOp LockBPM s = lockBPM s"
| "applyOp UnlockBPM s = unlockBPM s"
| "applyOp Reset s = reset s"

fun applyOps :: "detectorOp list \<Rightarrow> BeatDetector \<Rightarrow> BeatDetector" where
  "applyOps [] s = s"
| "applyOps (x # xs) s = applyOps xs (applyOp x s)"

section \<open>Notions used in the statements\<close>

text \<open>Both the live estimate and the locked snapshot lie in [120, 190].\<close>

definition bpmInRange :: "BeatDetector \<Rightarrow> bool" where
  "bpmInRange s = (120 \<le> estimatedBPM s \<and> estimatedBPM s \<le> 190
                   \<and> 120 \<le> lockedBPM s \<and> lockedBPM s \<le> 190)"

text \<open>Consecutive timestamps of the list differ by exactly \<open>I\<close>.\<close>

fun spaced :: "real \<Rightarrow> real list \<Rightarrow> bool" where
  "spaced I (x # y # ys) = (y - x = I \<and> spaced I (y # ys))"
| "spaced I _ = True"

text \<open>
  The candidate BPM that \<open>estimateBPM\<close> computes when every interval is \<open>I\<close>: the only
  bucket is \<open>Math.round(I / 10) * 10\<close>, and the candidate is \<open>Math.round(60000 / bucket)\<close>.
\<close>

definition steadyCandidate :: "real \<Rightarrow> int" where
  "steadyCandidate I = jsRound (60000 / of_int (jsRound (I / 10) * 10))"

section \<open>Properties of the rounding\<close>

lemma roundEven_close: "\<bar>of_int (roundEven y) - y\<bar> \<le> 1 / 2"
  unfolding roundEven_def Let_def by (auto; linarith)

lemma expo_eq_iff:
  assumes "x \<noteq> 0"
  shows "expo x = e \<longleftrightarrow> 2 powi e \<le> \<bar>x\<bar> \<and> \<bar>x\<bar> < 2 powi (e + 1)"
proof -
  have "0 < \<bar>x\<bar>" using assms by simp
  then have "\<lfloor>log 2 \<bar>x\<bar>\<rfloor> = e \<longleftrightarrow> 2 powr of_int e \<le> \<bar>x\<bar> \<and> \<bar>x\<bar> < 2 powr of_int (e + 1)"
    using floor_log_eq_powr_iff [of "\<bar>x\<bar>" 2 e] by simp
  moreover have "(2::real) powr of_int e = 2 powi e"
    by (rule powr_real_of_int') simp_all
  moreover have "(2::real) powr of_int (e + 1) = 2 powi (e + 1)"
    by (rule powr_real_of_int') simp_all
  ultimately show ?thesis by (simp add: expo_def)
qed

lemma expo_bounds:
  assumes "x \<noteq> 0"
  shows "2 powi expo x \<le> \<bar>x\<bar>" and "\<bar>x\<bar> < 2 powi (expo x + 1)"
  using expo_eq_iff [OF assms, of "expo x"] by simp_all

lemma ulp_pos: "0 < ulp x"
  by (simp add: ulp_def)

lemma ulp_le: "x \<noteq> 0 \<Longrightarrow> ulp x \<le> \<bar>x\<bar> / 2 ^ 52"
proof -
  assume x: "x \<noteq> 0"
  have "ulp x = 2 powi expo x / 2 powi 52"
    unfolding ulp_def by (rule power_int_diff) simp
  also have "\<dots> = 2 powi expo x / 2 ^ 52" by simp
  also have "\<dots> \<le> \<bar>x\<bar> / 2 ^ 52"
    using expo_bounds(1) [OF x] by (simp add: divide_right_mono)
  finally show ?thesis .
qed

lemma toDouble_error: "\<bar>toDouble x - x\<bar> \<le> \<bar>x\<bar> / 2 ^ 53"
proof (cases "x = 0")
  case True
  then show ?thesis by (simp add: toDouble_def)
next
  case False
  let ?y = "x / ulp x"
  have u: "0 < ulp x" by (rule ulp_pos)
  have "toDouble x - x = (of_int (roundEven ?y) - ?y) * ulp x"
    using False u by (simp add: toDouble_def field_simps)
  then have "\<bar>toDouble x - x\<bar> = \<bar>of_int (roundEven ?y) - ?y\<bar> * ulp x"
    using u by (simp add: abs_mult)
  also have "\<dots> \<le> (1 / 2) * ulp x"
    using roundEven_close [of ?y] u by (simp add: mult_right_mono)
  also have "\<dots> \<le> (1 / 2) * (\<bar>x\<bar> / 2 ^ 52)"
    using ulp_le [OF False] by simp
  also have "\<dots> = \<bar>x\<bar> / 2 ^ 53" by simp
  finally show ?thesis .
qed

lemma toDouble_nonneg: "0 \<le> x \<Longrightarrow> 0 \<le> toDouble x"
proof -
  assume x: "0 \<le> x"
  then have "\<bar>x\<bar> / 2 ^ 53 \<le> x" by (simp add: field_simps)
  then show ?thesis using toDouble_error [of x] by linarith
qed

lemma toDouble_nonpos: "x \<le> 0 \<Longrightarrow> toDouble x \<le> 0"
proof -
  assume x: "x \<le> 0"
  then have "\<bar>x\<bar> / 2 ^ 53 \<le> - x" by (simp add: field_simps)
  then show ?thesis using toDouble_error [of x] by linarith
qed

lemma toDouble_eval:
  assumes "2 ^ 52 \<le> \<bar>x\<bar> * 2 ^ k" "\<bar>x\<bar> * 2 ^ k < 2 ^ 53"
  shows "toDouble x = of_int (roundEven (x * 2 ^ k)) / 2 ^ k"
proof -
  have x: "x \<noteq> 0" using assms(1) by auto
  have p: "(2::real) powi (52 - int k) = 2 ^ 52 / 2 ^ k"
    by (subst power_int_diff) simp_all
  have q: "(2::real) powi (52 - int k + 1) = 2 ^ 53 / 2 ^ k"
    using power_int_diff [of "2::real" 53 "int k"] by (simp add: algebra_simps)
  have "expo x = 52 - int k"
    unfolding expo_eq_iff [OF x] p q using assms by (simp add: field_simps)
  then have "ulp x = 2 powi (- int k)"
    by (simp add: ulp_def)
  then have "ulp x = 1 / 2 ^ k"
    by (simp only: power_int_minus_divide power_int_of_nat)
  then show ?thesis using x by (simp add: toDouble_def)
qed

lemma doubles_41:
  "toDouble (36943590693273603 / 17592186044416) = 2100"
  "toDouble (2500) = 2500"
  "toDouble (2800) = 2800"
  by (subst toDouble_eval [where k = 41], simp_all add: roundEven_def Let_def)+

lemma doubles_42:
  "toDouble (1025) = 1025"
  "toDouble (1125) = 1125"
  "toDouble (1275) = 1275"
  by (subst toDouble_eval [where k = 42], simp_all add: roundEven_def Let_def)+

lemma doubles_43:
  "toDouble (525) = 525"
  "toDouble (526) = 526"
  "toDouble (625) = 625"
  by (subst toDouble_eval [where k = 43], simp_all add: roundEven_def Let_def)+

lemma doubles_44:
  "toDouble (2500 / 7) = 6282923587291429 / 17592186044416"
  "toDouble (375) = 375"
  "toDouble (56294995342131175 / 140737488355328) = 7036874417766397 / 17592186044416"
  "toDouble (400) = 400"
  "toDouble (475) = 475"
  "toDouble (500) = 500"
  by (subst toDouble_eval [where k = 44], simp_all add: roundEven_def Let_def)+

lemma doubles_46:
  "toDouble (100) = 100"
  by (subst toDouble_eval [where k = 46], simp_all add: roundEven_def Let_def)+

lemma doubles_50:
  "toDouble (43980465111040000 / 6282923587291429) = 7881299347898367 / 1125899906842624"
  "toDouble (7) = 7"
  by (subst toDouble_eval [where k = 50], simp_all add: roundEven_def Let_def)+

lemma doubles_51:
  "toDouble (9 / 4) = 9 / 4"
  "toDouble (51 / 16) = 51 / 16"
  by (subst toDouble_eval [where k = 51], simp_all add: roundEven_def Let_def)+

lemma doubles_52:
  "toDouble (1) = 1"
  "toDouble (19 / 16) = 19 / 16"
  "toDouble (5 / 4) = 5 / 4"
  by (subst toDouble_eval [where k = 52], simp_all add: roundEven_def Let_def)+

lemma doubles_53:
  "toDouble (15 / 16) = 15 / 16"
  "toDouble (6282923587291426 / 6282923587291429) = 2251799813685247 / 2251799813685248"
  by (subst toDouble_eval [where k = 53], simp_all add: roundEven_def Let_def)+

lemma doubles_54:
  "toDouble (1 / 4) = 1 / 4"
  by (subst toDouble_eval [where k = 54], simp_all add: roundEven_def Let_def)+

lemma doubles_55:
  "toDouble (3 / 16) = 3 / 16"
  by (subst toDouble_eval [where k = 55], simp_all add: roundEven_def Let_def)+

lemma toDouble_zero: "toDouble 0 = 0"
  by (simp add: toDouble_def)

lemmas doubles = toDouble_zero doubles_41 doubles_42 doubles_43 doubles_44 doubles_46 doubles_50
  doubles_51 doubles_52 doubles_53 doubles_54 doubles_55

lemmas clock_defs = start_def newBeatClock_def update_def setBPM_def getPhase_def Let_def
  jsRem_def jsFloor_def jsSub_def jsMul_def jsDiv_def

lemma toDouble_err: "\<bar>toDouble x - x\<bar> \<le> \<bar>x\<bar> / 9007199254740992"
  using toDouble_error [of x] by simp

lemma toDouble_pos: "0 < x \<Longrightarrow> 0 < toDouble x"
proof -
  assume x: "0 < x"
  then have "\<bar>x\<bar> / 9007199254740992 < x" by (simp add: field_simps)
  then show ?thesis using toDouble_err [of x] by linarith
qed

lemma toDouble_abs_le: "\<bar>toDouble x\<bar> \<le> \<bar>x\<bar> + \<bar>x\<bar> / 9007199254740992"
  using toDouble_err [of x] by linarith

lemma toDouble_upper: "\<bar>x\<bar> \<le> B \<Longrightarrow> toDouble x \<le> x + B / 9007199254740992"
proof -
  assume "\<bar>x\<bar> \<le> B"
  then have "\<bar>x\<bar> / 9007199254740992 \<le> B / 9007199254740992" by (simp add: divide_right_mono)
  then show ?thesis using toDouble_err [of x] by linarith
qed

lemma jsRem_div: "b \<noteq> 0 \<Longrightarrow>
  jsRem a b / b = a / b - of_int (if a / b < 0 then \<lceil>a / b\<rceil> else \<lfloor>a / b\<rfloor>)"
  by (simp add: jsRem_def diff_divide_distrib)

lemma jsRem_div_bound: "b \<noteq> 0 \<Longrightarrow> \<bar>jsRem a b / b\<bar> < 1"
proof -
  assume b: "b \<noteq> 0"
  show ?thesis unfolding jsRem_div [OF b] by (auto; linarith)
qed

lemma jsRem_div_nonneg: "0 < b \<Longrightarrow> 0 \<le> a \<Longrightarrow> 0 \<le> jsRem a b / b"
proof -
  assume b: "0 < b" and a: "0 \<le> a"
  have nn: "\<not> a / b < 0" using a b by (simp add: not_less)
  have "jsRem a b / b = a / b - of_int \<lfloor>a / b\<rfloor>"
    using b nn by (simp add: jsRem_div)
  then show ?thesis by linarith
qed

lemma beatDuration_pos: "0 < b \<Longrightarrow> 0 < jsDiv 60000 b"
  unfolding jsDiv_def by (rule toDouble_pos) simp

lemma beatDuration_ge_1: "0 < b \<Longrightarrow> b \<le> 30000 \<Longrightarrow> 1 \<le> jsDiv 60000 b"
proof -
  assume b: "0 < b" "b \<le> 30000"
  define x where "x = 60000 / b"
  have x: "2 \<le> x" unfolding x_def using b by (simp add: le_divide_eq)
  have "\<bar>toDouble x - x\<bar> \<le> \<bar>x\<bar> / 9007199254740992" by (rule toDouble_err)
  then have "1 \<le> toDouble x" using x by linarith
  then show ?thesis by (simp add: jsDiv_def x_def)
qed

lemma getPhase_abs:
  assumes "0 < bpm c"
  shows "\<bar>getPhase now c\<bar> \<le> 1 + 1 / 9007199254740992"
proof (cases "isRunning c")
  case False
  then show ?thesis by (simp add: getPhase_def)
next
  case True
  define d where "d = jsDiv 60000 (bpm c)"
  define r where "r = jsRem (jsSub now (startTime c)) d / d"
  have d: "d \<noteq> 0" using beatDuration_pos [OF assms] by (simp add: d_def)
  have r: "\<bar>r\<bar> < 1" unfolding r_def using d by (rule jsRem_div_bound)
  have "getPhase now c = toDouble r"
    using True by (simp add: getPhase_def Let_def d_def r_def jsDiv_def)
  moreover have "\<bar>toDouble r\<bar> \<le> \<bar>r\<bar> + \<bar>r\<bar> / 9007199254740992" by (rule toDouble_abs_le)
  moreover have "\<bar>r\<bar> / 9007199254740992 \<le> 1 / 9007199254740992" using r by (simp add: divide_right_mono)
  ultimately show ?thesis using r by linarith
qed

lemma getPhase_nonneg:
  assumes "0 < bpm c" "startTime c \<le> now"
  shows "0 \<le> getPhase now c"
proof (cases "isRunning c")
  case False
  then show ?thesis by (simp add: getPhase_def)
next
  case True
  define d where "d = jsDiv 60000 (bpm c)"
  define el where "el = jsSub now (startTime c)"
  have d: "0 < d" using beatDuration_pos [OF assms(1)] by (simp add: d_def)
  have el: "0 \<le> el" unfolding el_def jsSub_def using assms(2) by (intro toDouble_nonneg) simp
  have "0 \<le> jsRem el d / d" using d el by (rule jsRem_div_nonneg)
  then have "0 \<le> toDouble (jsRem el d / d)" by (rule toDouble_nonneg)
  then show ?thesis using True by (simp add: getPhase_def Let_def d_def el_def jsDiv_def)
qed

text \<open>The re-anchoring: the elapsed time recomputed from the new start time.\<close>

lemma reanchor:
  fixes p d A :: real
  assumes p: "\<bar>p\<bar> \<le> 1 + 1 / 9007199254740992" and d: "1 \<le> d" and A: "0 \<le> A"
  defines "q \<equiv> jsMul p d"
  defines "s \<equiv> jsSub A q"
  shows "\<bar>q - p * d\<bar> \<le> 2 * d / 9007199254740992"
    and "\<bar>s - (A - q)\<bar> \<le> (A + 3 * d) / 9007199254740992"
    and "\<bar>jsSub A s - p * d\<bar> \<le> (A + 6 * d) / 4503599627370496"
proof -
  have pd: "\<bar>p * d\<bar> \<le> 2 * d"
  proof -
    have "\<bar>p * d\<bar> = \<bar>p\<bar> * d" using d by (simp add: abs_mult)
    also have "\<dots> \<le> (1 + 1 / 9007199254740992) * d" using p d by (simp add: mult_right_mono)
    also have "\<dots> \<le> 2 * d" using d by simp
    finally show ?thesis .
  qed
  have "\<bar>q - p * d\<bar> \<le> \<bar>p * d\<bar> / 9007199254740992"
    unfolding q_def jsMul_def by (rule toDouble_err)
  also have "\<dots> \<le> 2 * d / 9007199254740992" using pd by (simp add: divide_right_mono)
  finally show 1: "\<bar>q - p * d\<bar> \<le> 2 * d / 9007199254740992" .
  have q: "\<bar>q\<bar> \<le> 3 * d" using 1 pd d by linarith
  have "\<bar>s - (A - q)\<bar> \<le> \<bar>A - q\<bar> / 9007199254740992"
    unfolding s_def jsSub_def by (rule toDouble_err)
  also have "\<dots> \<le> (A + 3 * d) / 9007199254740992"
    using q A by (intro divide_right_mono) linarith+
  finally show 2: "\<bar>s - (A - q)\<bar> \<le> (A + 3 * d) / 9007199254740992" .
  have u: "(A + 3 * d) / 9007199254740992 \<le> A + 3 * d" using A d by (simp add: field_simps)
  have as: "\<bar>A - s\<bar> \<le> A + 6 * d" using 2 q u by linarith
  have "\<bar>jsSub A s - (A - s)\<bar> \<le> \<bar>A - s\<bar> / 9007199254740992"
    unfolding jsSub_def by (rule toDouble_err)
  also have "\<dots> \<le> (A + 6 * d) / 9007199254740992"
    using as by (intro divide_right_mono) linarith+
  finally have 3: "\<bar>jsSub A s - (A - s)\<bar> \<le> (A + 6 * d) / 9007199254740992" .
  have "(A + 6 * d) / 9007199254740992 + (A + 3 * d) / 9007199254740992 + 2 * d / 9007199254740992 \<le> (A + 6 * d) / 4503599627370496"
    using A d by (simp add: field_simps)
  then show "\<bar>jsSub A s - p * d\<bar> \<le> (A + 6 * d) / 4503599627370496"
    using 1 2 3 by linarith
qed

section \<open>Properties of the beat clock\<close>

lemma setBPM_fields:
  assumes "b \<noteq> bpm c"
  shows "beatCount (setBPM now1 now2 b c) = beatCount c"
    and "isRunning (setBPM now1 now2 b c) = isRunning c"
    and "bpm (setBPM now1 now2 b c) = b"
    and "startTime (setBPM now1 now2 b c)
          = jsSub now2 (jsMul (getPhase now1 c) (jsDiv 60000 b))"
  using assms by (simp_all add: setBPM_def Let_def)

lemma update_phase: "isRunning c \<Longrightarrow> phase (fst (update t c)) = getPhase t c"
  by (simp add: update_def getPhase_def Let_def)

lemma update_no_onset:
  assumes "isRunning c"
    and "jsFloor (jsDiv (jsSub t (startTime c)) (jsDiv 60000 (bpm c))) \<le> beatCount c"
  shows "snd (update t c) = c \<and> \<not> isOnset (fst (update t c))"
  using assms by (simp add: update_def Let_def)

lemma update_onset:
  assumes "isRunning c"
    and "beatCount c < jsFloor (jsDiv (jsSub t (startTime c)) (jsDiv 60000 (bpm c)))"
  shows "isOnset (fst (update t c))"
  using assms by (simp add: update_def Let_def)

lemma updates_no_onset:
  assumes "isRunning c"
    and "\<forall>t\<in>set ts. jsFloor (jsDiv (jsSub t (startTime c)) (jsDiv 60000 (bpm c))) \<le> beatCount c"
  shows "snd (updates ts c) = c \<and> (\<forall>i\<in>set (fst (updates ts c)). \<not> isOnset i)"
  using assms
proof (induction ts)
  case Nil
  then show ?case by simp
next
  case (Cons t ts)
  have u: "snd (update t c) = c \<and> \<not> isOnset (fst (update t c))"
    using Cons.prems update_no_onset by simp
  then have "update t c = (fst (update t c), c)"
    by (metis prod.collapse)
  moreover have "snd (updates ts c) = c \<and> (\<forall>i\<in>set (fst (updates ts c)). \<not> isOnset i)"
    using Cons by simp
  ultimately show ?case using u
    by (simp add: case_prod_unfold Let_def)
qed

text \<open>The quotient \<open>elapsed / beatDuration\<close> recomputed at the re-anchoring reading.\<close>

lemma reanchor_quotient:
  fixes p d A :: real
  assumes p: "\<bar>p\<bar> \<le> 1 + 1 / 9007199254740992" and d: "1 \<le> d"
    and A: "0 \<le> A" "A \<le> 2 ^ 40"
  shows "\<bar>jsSub A (jsSub A (jsMul p d)) / d - p\<bar> \<le> (A / d + 6) / 4503599627370496"
    and "\<bar>jsSub A (jsSub A (jsMul p d)) / d - p\<bar> \<le> 1 / 4"
proof -
  define e where "e = jsSub A (jsSub A (jsMul p d))"
  have dp: "0 < d" using d by simp
  have h: "\<bar>e - p * d\<bar> \<le> (A + 6 * d) / 4503599627370496"
    unfolding e_def using p d A(1) by (rule reanchor(3))
  have "e / d - p = (e - p * d) / d" using dp by (simp add: diff_divide_distrib)
  then have "\<bar>e / d - p\<bar> = \<bar>e - p * d\<bar> / d" by (metis abs_divide abs_of_pos dp)
  also have "\<dots> \<le> (A + 6 * d) / 4503599627370496 / d"
    by (rule divide_right_mono [OF h]) (use dp in simp)
  also have "\<dots> = (A / d + 6) / 4503599627370496"
    using dp by (simp add: field_simps)
  finally show 1: "\<bar>jsSub A (jsSub A (jsMul p d)) / d - p\<bar> \<le> (A / d + 6) / 4503599627370496"
    by (simp only: e_def)
  define r where "r = A / d"
  have "A / d \<le> A / 1" using A(1) d by (intro divide_left_mono) simp_all
  then have "r \<le> 1099511627776" using A(2) by (simp add: r_def)
  then have "(r + 6) / 4503599627370496 \<le> 1 / 4" by simp
  then show "\<bar>jsSub A (jsSub A (jsMul p d)) / d - p\<bar> \<le> 1 / 4"
    using 1 unfolding r_def [symmetric] by linarith
qed

text \<open>
  Claim C1.  The claim: every emission of a running clock has \<open>isOnset\<close> true exactly
  when its phase has wrapped through 0 since the previous emission, also across calls
  of \<open>setBPM\<close>.  The program does not do that.  A clock built at 120 BPM is started at
  time 0 and updated at 625 ms (beat 1, onset, phase 1/4); \<open>setBPM(150)\<close> at 625 ms
  moves the start time to 525 ms and leaves the stored beat count at 1.  The update at
  900 ms reports phase 15/16, the update at 1000 ms reports phase 3/16: the phase has
  wrapped, and \<open>isOnset\<close> is false, because the recomputed beat index 1 does not exceed
  the stored count 1.  No operation of this run rounds.
\<close>

theorem setBPM_loses_onset:
  "(let c0 = start 0 (newBeatClock 120);
        (i1, c1) = update 625 c0;
        c2 = setBPM 625 625 150 c1;
        (infos, c3) = updates [900, 1000] c2
    in (beatCount c1, startTime c2, beatCount c2,
        map (\<lambda>i. (phase i, isOnset i)) (i1 # infos)))
   = (1, 525, 1, [(1 / 4, True), (15 / 16, False), (3 / 16, False)])"
  by (simp add: clock_defs doubles)

text \<open>
  Claim C4, as amended.  A running clock with a positive BPM gets \<open>setBPM b\<close> with a
  different \<open>b\<close> in (0, 30000], the clock reading \<open>now2\<close> of the re-anchoring in
  [0, \<open>2 ^ 40\<close>] ms and the start time not after the reading \<open>now1\<close> of the phase.  Then
  the BPM becomes \<open>b\<close>, the start time becomes \<open>now2 - currentPhase * newBeatDuration\<close>
  (each operation rounded), and the phase computed at \<open>now2\<close> after the call equals the
  phase read before the change up to rounding: the two differ, directly or after a wrap
  by one whole beat, by at most \<open>(7 + now2 / newBeatDuration) / 2 ^ 52\<close>.  A call with
  the current BPM changes nothing.
\<close>

theorem setBPM_keeps_phase_up_to_rounding:
  assumes run: "isRunning c" and bc: "0 < bpm c" and b: "0 < b" "b \<le> 30000"
    and ne: "b \<noteq> bpm c" and st: "startTime c \<le> now1"
    and A: "0 \<le> now2" "now2 \<le> 2 ^ 40"
  shows "bpm (setBPM now1 now2 b c) = b
       \<and> startTime (setBPM now1 now2 b c)
           = jsSub now2 (jsMul (getPhase now1 c) (jsDiv 60000 b))
       \<and> (\<bar>getPhase now2 (setBPM now1 now2 b c) - getPhase now1 c\<bar>
             \<le> (7 + now2 / jsDiv 60000 b) / 2 ^ 52
          \<or> \<bar>getPhase now2 (setBPM now1 now2 b c) + 1 - getPhase now1 c\<bar>
             \<le> (7 + now2 / jsDiv 60000 b) / 2 ^ 52)
       \<and> setBPM now1 now2 (bpm c) c = c"
proof -
  define p where "p = getPhase now1 c"
  define d where "d = jsDiv 60000 b"
  define e where "e = jsSub now2 (jsSub now2 (jsMul p d))"
  define z where "z = e / d"
  define k where "k = (if z < 0 then \<lceil>z\<rceil> else \<lfloor>z\<rfloor>)"
  define f where "f = jsRem e d / d"
  define p' where "p' = getPhase now2 (setBPM now1 now2 b c)"
  have d1: "1 \<le> d" unfolding d_def using b by (rule beatDuration_ge_1)
  then have d0: "d \<noteq> 0" by simp
  have pa: "\<bar>p\<bar> \<le> 1 + 1 / 9007199254740992"
    unfolding p_def using bc by (rule getPhase_abs)
  have p0: "0 \<le> p" unfolding p_def using bc st by (rule getPhase_nonneg)
  have zp: "\<bar>z - p\<bar> \<le> (now2 / d + 6) / 4503599627370496" and zq: "\<bar>z - p\<bar> \<le> 1 / 4"
    unfolding z_def e_def using reanchor_quotient [OF pa d1 A] by simp_all
  have fz: "f = z - of_int k"
    unfolding f_def z_def k_def using d0 by (simp add: jsRem_div)
  have fa: "\<bar>f\<bar> < 1" unfolding f_def using d0 by (rule jsRem_div_bound)
  have p': "p' = toDouble f"
    using run ne by (simp add: p'_def getPhase_def setBPM_def Let_def f_def e_def d_def p_def
        jsDiv_def)
  have "\<bar>p' - f\<bar> \<le> \<bar>f\<bar> / 9007199254740992" unfolding p' by (rule toDouble_err)
  then have pf: "\<bar>p' - f\<bar> \<le> 1 / 9007199254740992" using fa by linarith
  have k01: "k = 0 \<or> k = 1"
  proof (cases "z < 0")
    case True
    have "- 1 < z" using zq p0 by linarith
    then have "\<lceil>z\<rceil> = 0" using True by (simp add: ceiling_eq_iff)
    then show ?thesis using True by (simp add: k_def)
  next
    case False
    have "z < 2" using zq pa by linarith
    then have "0 \<le> \<lfloor>z\<rfloor>" "\<lfloor>z\<rfloor> \<le> 1"
      using False by (simp_all add: le_floor_iff floor_le_iff)
    then have "\<lfloor>z\<rfloor> = 0 \<or> \<lfloor>z\<rfloor> = 1" by linarith
    then show ?thesis using False by (simp add: k_def)
  qed
  define r where "r = now2 / d"
  define kr :: real where "kr = of_int k"
  have pz: "\<bar>p' - (z - kr)\<bar> \<le> 1 / 9007199254740992"
    using pf by (simp add: fz kr_def)
  have zr: "\<bar>z - p\<bar> \<le> (r + 6) / 4503599627370496"
    using zp by (simp add: r_def)
  have "1 / 9007199254740992 + (r + 6) / 4503599627370496 \<le> (7 + r) / 4503599627370496"
    by (simp add: field_simps)
  then have "\<bar>p' + kr - p\<bar> \<le> (7 + r) / 4503599627370496"
    using pz zr by linarith
  then have tot: "\<bar>p' + of_int k - p\<bar> \<le> (7 + r) / 4503599627370496"
    by (simp add: kr_def)
  have "\<bar>p' - p\<bar> \<le> (7 + now2 / d) / 2 ^ 52 \<or> \<bar>p' + 1 - p\<bar> \<le> (7 + now2 / d) / 2 ^ 52"
    using k01 tot by (auto simp: r_def)
  moreover have "setBPM now1 now2 (bpm c) c = c" by (simp add: setBPM_def)
  ultimately show ?thesis
    using ne by (simp add: setBPM_fields p'_def p_def d_def)
qed

theorem setBPM_keeps_phase_up_to_rounding_witness:
  "isRunning (start 0 (newBeatClock 120)) \<and> 0 < bpm (start 0 (newBeatClock 120))
   \<and> (0::real) < 150 \<and> (150::real) \<le> 30000 \<and> 150 \<noteq> bpm (start 0 (newBeatClock 120))
   \<and> startTime (start 0 (newBeatClock 120)) \<le> 625 \<and> (0::real) \<le> 626 \<and> (626::real) \<le> 2 ^ 40
   \<and> bpm (setBPM 625 626 150 (start 0 (newBeatClock 120))) = 150
   \<and> startTime (setBPM 625 626 150 (start 0 (newBeatClock 120))) = 526
   \<and> getPhase 625 (start 0 (newBeatClock 120)) = 1 / 4
   \<and> getPhase 626 (setBPM 625 626 150 (start 0 (newBeatClock 120))) = 1 / 4
   \<and> (\<bar>getPhase 626 (setBPM 625 626 150 (start 0 (newBeatClock 120)))
          - getPhase 625 (start 0 (newBeatClock 120))\<bar> \<le> (7 + 626 / jsDiv 60000 150) / 2 ^ 52
      \<or> \<bar>getPhase 626 (setBPM 625 626 150 (start 0 (newBeatClock 120))) + 1
          - getPhase 625 (start 0 (newBeatClock 120))\<bar> \<le> (7 + 626 / jsDiv 60000 150) / 2 ^ 52)"
proof -
  let ?c = "start 0 (newBeatClock 120)"
  have h: "isRunning ?c" "0 < bpm ?c" "(0::real) < 150" "(150::real) \<le> 30000" "150 \<noteq> bpm ?c"
    "startTime ?c \<le> 625" "(0::real) \<le> 626" "(626::real) \<le> 2 ^ 40"
    by (simp_all add: start_def newBeatClock_def)
  have v: "getPhase 625 ?c = 1 / 4" "getPhase 626 (setBPM 625 626 150 ?c) = 1 / 4"
    "startTime (setBPM 625 626 150 ?c) = 526"
    by (simp_all add: clock_defs doubles)
  from setBPM_keeps_phase_up_to_rounding [OF h] h v show ?thesis
    by blast
qed

text \<open>
  Claim C4 as stated (the phase after the call equals the phase before it) fails: on a
  clock built at 168 BPM and started at time 0, the phase at 2500 ms is
  \<open>1 - 2 powi -51\<close>, and after \<open>setBPM(150)\<close> at 2500 ms the phase at 2500 ms is 0.
\<close>

theorem setBPM_shifts_phase:
  "getPhase 2500 (start 0 (newBeatClock 168)) = 2251799813685247 / 2251799813685248
   \<and> getPhase 2500 (setBPM 2500 2500 150 (start 0 (newBeatClock 168))) = 0"
  by (simp add: clock_defs doubles)

lemma restart_index:
  fixes p d A :: real
  assumes p: "\<bar>p\<bar> \<le> 1 + 1 / 9007199254740992" and d: "1 \<le> d"
    and A: "0 \<le> A" "A \<le> 2 ^ 40"
  shows "jsFloor (jsDiv (jsSub A (jsSub A (jsMul p d))) d) \<le> 1"
proof -
  define z where "z = jsSub A (jsSub A (jsMul p d)) / d"
  have zq: "\<bar>z - p\<bar> \<le> 1 / 4" unfolding z_def using p d A by (rule reanchor_quotient(2))
  have za: "\<bar>z\<bar> \<le> 3 / 2" using zq p by linarith
  have "toDouble z \<le> z + (3 / 2) / 9007199254740992" using za by (rule toDouble_upper)
  then have "toDouble z < 2" using za by linarith
  then have "\<lfloor>toDouble z\<rfloor> \<le> 1" by (simp add: floor_le_iff)
  then show ?thesis by (simp add: jsFloor_def jsDiv_def z_def)
qed

lemma early_index:
  fixes p d A t :: real
  assumes p: "\<bar>p\<bar> \<le> 1 + 1 / 9007199254740992" and d: "1 \<le> d"
    and A: "0 \<le> A" "A \<le> 2 ^ 40"
    and N: "1 \<le> N" "N \<le> 2 ^ 40"
    and t: "t \<le> A + of_int (N - 1) * d"
  shows "jsFloor (jsDiv (jsSub t (jsSub A (jsMul p d))) d) \<le> N"
proof -
  define q where "q = jsMul p d"
  define s where "s = jsSub A q"
  define x where "x = t - s"
  define Nr :: real where "Nr = of_int N"
  have dp: "0 < d" using d by simp
  have Nr: "1 \<le> Nr" "Nr \<le> 1099511627776"
    using N by (simp_all add: Nr_def)
  have q1: "\<bar>q - p * d\<bar> \<le> 2 * d / 9007199254740992"
    unfolding q_def using p d A(1) by (rule reanchor(1))
  have s1: "\<bar>s - (A - q)\<bar> \<le> (A + 3 * d) / 9007199254740992"
    unfolding s_def q_def using p d A(1) by (rule reanchor(2))
  have pd: "p * d \<le> d + d / 9007199254740992"
  proof -
    have "p * d \<le> \<bar>p\<bar> * d" using dp by (simp add: mult_right_mono)
    also have "\<dots> \<le> (1 + 1 / 9007199254740992) * d" using p dp by (simp add: mult_right_mono)
    finally show ?thesis by (simp add: algebra_simps)
  qed
  have nd: "of_int (N - 1) * d = Nr * d - d" by (simp add: Nr_def algebra_simps)
  have e1: "2 * d / 9007199254740992 + d / 9007199254740992 + (A + 3 * d) / 9007199254740992
        = (A + 6 * d) / 9007199254740992" by (simp add: field_simps)
  have xb: "x \<le> Nr * d + (A + 6 * d) / 9007199254740992"
    using q1 s1 pd t unfolding x_def nd e1 [symmetric] by linarith
  show ?thesis
  proof (cases "x \<le> 0")
    case True
    then have "toDouble x \<le> 0" by (rule toDouble_nonpos)
    then have "toDouble x / d \<le> 0" using dp by (simp add: divide_le_0_iff)
    then have "toDouble (toDouble x / d) \<le> 0" by (rule toDouble_nonpos)
    then have "\<lfloor>toDouble (toDouble x / d)\<rfloor> \<le> 0" by (simp add: floor_le_iff)
    then have "\<lfloor>toDouble (toDouble x / d)\<rfloor> \<le> N" using N(1) by linarith
    then show ?thesis
      by (simp add: jsFloor_def jsDiv_def jsSub_def x_def s_def q_def)
  next
    case False
    then have xp: "0 < x" by simp
    define y where "y = x / d"
    define r where "r = A / d"
    have yp: "0 < y" using xp dp by (simp add: y_def)
    have "y \<le> (Nr * d + (A + 6 * d) / 9007199254740992) / d"
      unfolding y_def by (rule divide_right_mono [OF xb]) (use dp in simp)
    also have "\<dots> = Nr + (r + 6) / 9007199254740992"
      using dp by (simp add: field_simps r_def)
    finally have y1: "y \<le> Nr + (r + 6) / 9007199254740992" .
    have "A / d \<le> A / 1" using A(1) d by (intro divide_left_mono) simp_all
    then have "r \<le> 1099511627776" using A(2) by (simp add: r_def)
    then have "(r + 6) / 9007199254740992 \<le> 1 / 4" by simp
    then have y2: "y \<le> Nr + 1 / 4" using y1 by linarith
    have ex: "\<bar>toDouble x - x\<bar> \<le> \<bar>x\<bar> / 9007199254740992" by (rule toDouble_err)
    define w where "w = toDouble x / d"
    have et: "toDouble x \<le> x + x / 9007199254740992" using ex xp by linarith
    have "w \<le> (x + x / 9007199254740992) / d"
      unfolding w_def by (rule divide_right_mono [OF et]) (use dp in simp)
    also have "\<dots> = y + y / 9007199254740992" by (simp add: y_def add_divide_distrib)
    finally have w1: "w \<le> y + y / 9007199254740992" .
    have w0: "0 \<le> w" unfolding w_def using xp dp by (simp add: toDouble_nonneg)
    have w2: "w \<le> Nr + 3 / 8" using w1 y2 Nr yp by linarith
    have ew: "\<bar>toDouble w - w\<bar> \<le> \<bar>w\<bar> / 9007199254740992" by (rule toDouble_err)
    have "toDouble w < Nr + 1" using ew w0 w2 Nr by linarith
    then have "\<lfloor>toDouble w\<rfloor> \<le> N" by (simp add: floor_le_iff Nr_def)
    then show ?thesis
      by (simp add: jsFloor_def jsDiv_def jsSub_def w_def x_def s_def q_def)
  qed
qed

text \<open>
  Claim C9, as amended.  A running clock with a positive BPM and stored beat count \<open>N\<close>
  between 1 and \<open>2 ^ 40\<close> gets \<open>setBPM b\<close> with a different \<open>b\<close> in (0, 30000] at a
  clock reading \<open>now2\<close> in [0, \<open>2 ^ 40\<close>] ms.  Then the stored beat count is still \<open>N\<close>;
  the beat index recomputed at \<open>now2\<close> is at most 1; every run of updates whose
  recomputed beat indices are at most \<open>N\<close>, in particular every run of updates within
  \<open>N - 1\<close> new beat durations of the call, emits no onset and leaves the clock
  unchanged; and an update whose recomputed beat index exceeds \<open>N\<close> emits an onset.
\<close>

theorem setBPM_suppresses_onsets:
  assumes run: "isRunning c" and bc: "0 < bpm c" and b: "0 < b" "b \<le> 30000"
    and ne: "b \<noteq> bpm c" and A: "0 \<le> now2" "now2 \<le> 2 ^ 40"
    and N: "1 \<le> beatCount c" "beatCount c \<le> 2 ^ 40"
  shows "let c' = setBPM now1 now2 b c;
             d = jsDiv 60000 b;
             idx = (\<lambda>t. jsFloor (jsDiv (jsSub t (startTime c')) d))
         in beatCount c' = beatCount c
          \<and> idx now2 \<le> 1
          \<and> (\<forall>ts. (\<forall>t\<in>set ts. idx t \<le> beatCount c) \<longrightarrow>
                snd (updates ts c') = c' \<and> (\<forall>i\<in>set (fst (updates ts c')). \<not> isOnset i))
          \<and> (\<forall>ts. (\<forall>t\<in>set ts. t \<le> now2 + of_int (beatCount c - 1) * d) \<longrightarrow>
                snd (updates ts c') = c' \<and> (\<forall>i\<in>set (fst (updates ts c')). \<not> isOnset i))
          \<and> (\<forall>t. beatCount c < idx t \<longrightarrow> isOnset (fst (update t c')))"
proof -
  define c' where "c' = setBPM now1 now2 b c"
  define d where "d = jsDiv 60000 b"
  define idx where "idx = (\<lambda>t. jsFloor (jsDiv (jsSub t (startTime c')) d))"
  define p where "p = getPhase now1 c"
  have d1: "1 \<le> d" unfolding d_def using b by (rule beatDuration_ge_1)
  have pa: "\<bar>p\<bar> \<le> 1 + 1 / 9007199254740992"
    unfolding p_def using bc by (rule getPhase_abs)
  have f: "beatCount c' = beatCount c" "isRunning c'" "bpm c' = b"
    "startTime c' = jsSub now2 (jsMul p d)"
    using run ne by (simp_all add: c'_def setBPM_fields p_def d_def)
  have idx: "idx t = jsFloor (jsDiv (jsSub t (startTime c')) (jsDiv 60000 (bpm c')))" for t
    by (simp add: idx_def d_def f(3))
  have one: "idx now2 \<le> 1"
    unfolding idx_def f(4) using pa d1 A by (rule restart_index)
  have quiet: "snd (updates ts c') = c' \<and> (\<forall>i\<in>set (fst (updates ts c')). \<not> isOnset i)"
    if "\<forall>t\<in>set ts. idx t \<le> beatCount c" for ts
    using that updates_no_onset [of c' ts] f(1,2) by (simp add: idx)
  have early: "idx t \<le> beatCount c" if "t \<le> now2 + of_int (beatCount c - 1) * d" for t
    unfolding idx_def f(4) using pa d1 A N that by (rule early_index)
  have quiet2: "snd (updates ts c') = c' \<and> (\<forall>i\<in>set (fst (updates ts c')). \<not> isOnset i)"
    if "\<forall>t\<in>set ts. t \<le> now2 + of_int (beatCount c - 1) * d" for ts
    using that early quiet by blast
  have again: "isOnset (fst (update t c'))" if "beatCount c < idx t" for t
    using that update_onset [of c' t] f(1,2) by (simp add: idx)
  show ?thesis
    unfolding Let_def c'_def [symmetric] d_def [symmetric]
    using f(1) one [unfolded idx_def] quiet [unfolded idx_def] quiet2
      again [unfolded idx_def] by blast
qed

theorem setBPM_suppresses_onsets_witness:
  "isRunning (snd (update 1125 (start 0 (newBeatClock 120))))
   \<and> 0 < bpm (snd (update 1125 (start 0 (newBeatClock 120))))
   \<and> (0::real) < 150 \<and> (150::real) \<le> 30000
   \<and> 150 \<noteq> bpm (snd (update 1125 (start 0 (newBeatClock 120))))
   \<and> (0::real) \<le> 1125 \<and> (1125::real) \<le> 2 ^ 40
   \<and> 1 \<le> beatCount (snd (update 1125 (start 0 (newBeatClock 120))))
   \<and> beatCount (snd (update 1125 (start 0 (newBeatClock 120)))) \<le> 2 ^ 40
   \<and> beatCount (setBPM 1125 1125 150 (snd (update 1125 (start 0 (newBeatClock 120))))) = 2
   \<and> map isOnset (fst (updates [1400, 1500]
         (setBPM 1125 1125 150 (snd (update 1125 (start 0 (newBeatClock 120))))))) = [False, False]
   \<and> isOnset (fst (update 2300
         (setBPM 1125 1125 150 (snd (update 1125 (start 0 (newBeatClock 120)))))))"
proof -
  let ?c = "snd (update 1125 (start 0 (newBeatClock 120)))"
  have c: "?c = \<lparr>bpm = 120, startTime = 0, lastBeatTime = 1125, beatCount = 2, isRunning = True\<rparr>"
    by (simp add: clock_defs doubles)
  have h: "isRunning ?c" "0 < bpm ?c" "(0::real) < 150" "(150::real) \<le> 30000" "150 \<noteq> bpm ?c"
    "(0::real) \<le> 1125" "(1125::real) \<le> 2 ^ 40" "1 \<le> beatCount ?c" "beatCount ?c \<le> 2 ^ 40"
    unfolding c by simp_all
  have s: "setBPM 1125 1125 150 ?c
     = \<lparr>bpm = 150, startTime = 1025, lastBeatTime = 1125, beatCount = 2, isRunning = True\<rparr>"
    unfolding c by (simp add: clock_defs doubles)
  have d: "jsDiv 60000 150 = 400" by (simp add: jsDiv_def doubles)
  have i: "beatCount ?c < jsFloor (jsDiv (jsSub 2300 (startTime (setBPM 1125 1125 150 ?c)))
      (jsDiv 60000 150))"
    unfolding s unfolding c by (simp add: clock_defs doubles)
  have l: "\<forall>t\<in>set [1400, 1500::real]. t \<le> 1125 + of_int (beatCount ?c - 1) * jsDiv 60000 150"
    unfolding c d by simp
  note T = setBPM_suppresses_onsets [OF h, of 1125, unfolded Let_def]
  from T l have q: "\<forall>i\<in>set (fst (updates [1400, 1500] (setBPM 1125 1125 150 ?c))). \<not> isOnset i"
    by blast
  have len: "length (fst (updates [1400, 1500] (setBPM 1125 1125 150 ?c))) = 2"
    by (simp add: case_prod_unfold Let_def)
  from q len have m: "map isOnset (fst (updates [1400, 1500] (setBPM 1125 1125 150 ?c))) = [False, False]"
    by (simp add: case_prod_unfold Let_def)
  from T i have o: "isOnset (fst (update 2300 (setBPM 1125 1125 150 ?c)))"
    by blast
  from T have b: "beatCount (setBPM 1125 1125 150 ?c) = beatCount ?c" by blast
  show ?thesis using h m o b unfolding c by simp
qed

text \<open>
  Claim C9 as stated (the recomputed beat index restarts below one) fails: a clock built
  at 168 BPM, started at time 0 and updated at 2500 ms has beat count 6; \<open>setBPM(150)\<close>
  at 2500 ms moves the start time to 2100 ms, so the beat index recomputed at 2500 ms
  is 1, and the update at 4900 ms, six new beat durations after the call, emits an onset.
\<close>

theorem setBPM_restarts_at_one:
  "beatCount (snd (update 2500 (start 0 (newBeatClock 168)))) = 6
   \<and> startTime (setBPM 2500 2500 150 (snd (update 2500 (start 0 (newBeatClock 168))))) = 2100
   \<and> jsFloor (jsDiv (jsSub 2500
          (startTime (setBPM 2500 2500 150 (snd (update 2500 (start 0 (newBeatClock 168)))))))
        (jsDiv 60000 150)) = 1
   \<and> isOnset (fst (update 4900
          (setBPM 2500 2500 150 (snd (update 2500 (start 0 (newBeatClock 168)))))))"
  by (simp add: clock_defs doubles)

section \<open>Properties of the tap tempo\<close>

text \<open>
  Claim C8.  When the buffer is not empty and the gap between the new tap and the most
  recent one exceeds 2000 ms, \<open>tap\<close> leaves exactly the new tap in the buffer (and
  returns no estimate).  For taps at 0, 500, 3000 and 3500 ms the tap at 3000 resets the
  buffer to that one tap, and after the tap at 3500 the buffer holds exactly the two
  taps 3000 and 3500.
\<close>

theorem tap_reset_on_gap:
  "(taps s \<noteq> [] \<and> now - last (taps s) > maxInterval \<longrightarrow>
      taps (snd (tap now s)) = [now] \<and> fst (tap now s) = None)
   \<and> tapAll [0, 500, 3000] newTapTempo = ([None, Some 120, None], \<lparr>taps = [3000]\<rparr>)
   \<and> tapAll [0, 500, 3000, 3500] newTapTempo
       = ([None, Some 120, None, Some 120], \<lparr>taps = [3000, 3500]\<rparr>)
   \<and> length (taps (snd (tapAll [0, 500, 3000, 3500] newTapTempo))) = 2"
  by (simp add: tap_def Let_def maxTaps_def maxInterval_def newTapTempo_def jsRound_def)

theorem tap_reset_on_gap_witness:
  "taps \<lparr>taps = [0, 500]\<rparr> \<noteq> [] \<and> 3000 - last (taps \<lparr>taps = [0, 500]\<rparr>) > maxInterval
   \<and> taps (snd (tap 3000 \<lparr>taps = [0, 500]\<rparr>)) = [3000]
   \<and> fst (tap 3000 \<lparr>taps = [0, 500]\<rparr>) = None"
proof -
  have h: "taps \<lparr>taps = [0, 500]\<rparr> \<noteq> [] \<and> 3000 - last (taps \<lparr>taps = [0, 500]\<rparr>) > maxInterval"
    by (simp add: maxInterval_def)
  from tap_reset_on_gap [of "\<lparr>taps = [0, 500]\<rparr>" 3000] h show ?thesis
    by blast
qed

section \<open>Properties of the tempo estimator\<close>

lemma smoothBPM_lower: "10 * smoothBPM e c \<le> 7 * e + 3 * c + 5"
proof -
  have "of_int (smoothBPM e c) \<le> (of_int e * 0.7 + of_int c * 0.3 + 1 / 2 :: real)"
    unfolding smoothBPM_def jsRound_def by (rule of_int_floor_le)
  then have "(of_int (10 * smoothBPM e c) :: real) \<le> of_int (7 * e + 3 * c + 5)"
    by simp
  then show ?thesis by (simp only: of_int_le_iff)
qed

lemma smoothBPM_upper: "7 * e + 3 * c + 5 < 10 * smoothBPM e c + 10"
proof -
  have "(of_int e * 0.7 + of_int c * 0.3 + 1 / 2 :: real) < of_int (smoothBPM e c) + 1"
    unfolding smoothBPM_def jsRound_def by linarith
  then have "(of_int (7 * e + 3 * c + 5) :: real) < of_int (10 * smoothBPM e c + 10)"
    by simp
  then show ?thesis by (simp only: of_int_less_iff)
qed

lemma smoothBPM_fixed: "\<bar>c - e\<bar> \<le> 1 \<Longrightarrow> smoothBPM e c = e"
  using smoothBPM_lower [of e c] smoothBPM_upper [of e c] by linarith

lemma smoothBPM_up: "2 \<le> c - e \<Longrightarrow> e < smoothBPM e c \<and> smoothBPM e c < c"
  using smoothBPM_lower [of e c] smoothBPM_upper [of e c] by linarith

lemma smoothBPM_down: "2 \<le> e - c \<Longrightarrow> c < smoothBPM e c \<and> smoothBPM e c < e"
  using smoothBPM_lower [of e c] smoothBPM_upper [of e c] by linarith

lemma smoothBPM_between: "lo \<le> e \<Longrightarrow> e \<le> hi \<Longrightarrow> lo \<le> c \<Longrightarrow> c \<le> hi
  \<Longrightarrow> lo \<le> smoothBPM e c \<and> smoothBPM e c \<le> hi"
  using smoothBPM_lower [of e c] smoothBPM_upper [of e c] by linarith

lemma smoothBPM_same: "smoothBPM c c = c"
  by (simp add: smoothBPM_fixed)

lemma smoothBPM_eq_iff: "smoothBPM e c = c \<longleftrightarrow> e = c"
  using smoothBPM_lower [of e c] smoothBPM_upper [of e c] by linarith

lemma smoothBPM_closer: "\<bar>c - smoothBPM e c\<bar> \<le> \<bar>c - e\<bar>"
  using smoothBPM_lower [of e c] smoothBPM_upper [of e c] by linarith

lemma smoothBPM_step: "\<bar>c - smoothBPM e c\<bar> \<le> max 1 (\<bar>c - e\<bar> - 1)"
  using smoothBPM_lower [of e c] smoothBPM_upper [of e c] by linarith

lemma convertAndSmooth_cases:
  "convertAndSmooth b s =
     (if 120 \<le> jsRound (60000 / of_int b) \<and> jsRound (60000 / of_int b) \<le> 190
      then s\<lparr>estimatedBPM := smoothBPM (estimatedBPM s) (jsRound (60000 / of_int b))\<rparr>
      else s)"
  by (simp add: convertAndSmooth_def Let_def)

lemma convertAndSmooth_other:
  "onsetTimes (convertAndSmooth b s) = onsetTimes s"
  "bpmLocked (convertAndSmooth b s) = bpmLocked s"
  "lockedBPM (convertAndSmooth b s) = lockedBPM s"
  by (simp_all add: convertAndSmooth_cases)

lemma convertAndSmooth_range:
  "120 \<le> estimatedBPM s \<and> estimatedBPM s \<le> 190
   \<Longrightarrow> 120 \<le> estimatedBPM (convertAndSmooth b s) \<and> estimatedBPM (convertAndSmooth b s) \<le> 190"
  using smoothBPM_between [of 120 "estimatedBPM s" 190 "jsRound (60000 / of_int b)"]
  by (simp add: convertAndSmooth_cases)

lemma estimateBPM_other:
  "onsetTimes (estimateBPM s) = onsetTimes s"
  "bpmLocked (estimateBPM s) = bpmLocked s"
  "lockedBPM (estimateBPM s) = lockedBPM s"
  by (simp_all add: estimateBPM_def Let_def convertAndSmooth_other)

lemma estimateBPM_range:
  "120 \<le> estimatedBPM s \<and> estimatedBPM s \<le> 190
   \<Longrightarrow> 120 \<le> estimatedBPM (estimateBPM s) \<and> estimatedBPM (estimateBPM s) \<le> 190"
  using convertAndSmooth_range by (simp add: estimateBPM_def Let_def)

lemma recordOnset_other:
  "bpmLocked (recordOnset t s) = bpmLocked s"
  "lockedBPM (recordOnset t s) = lockedBPM s"
  by (simp_all add: recordOnset_def Let_def estimateBPM_other)

lemma recordOnset_range:
  assumes "120 \<le> estimatedBPM s \<and> estimatedBPM s \<le> 190"
  shows "120 \<le> estimatedBPM (recordOnset t s) \<and> estimatedBPM (recordOnset t s) \<le> 190"
proof -
  let ?s = "s\<lparr>onsetTimes := (if length (onsetTimes s @ [t]) > maxOnsets
                then tl (onsetTimes s @ [t]) else onsetTimes s @ [t])\<rparr>"
  have r: "120 \<le> estimatedBPM ?s \<and> estimatedBPM ?s \<le> 190" using assms by simp
  have "recordOnset t s = (if \<not> bpmLocked s then estimateBPM ?s else ?s)"
    by (simp add: recordOnset_def Let_def)
  then show ?thesis using r estimateBPM_range [OF r] by presburger
qed

lemma recordOnset_locked:
  "bpmLocked s \<Longrightarrow> recordOnset t s =
     s\<lparr>onsetTimes := (if length (onsetTimes s @ [t]) > maxOnsets
                        then tl (onsetTimes s @ [t]) else onsetTimes s @ [t])\<rparr>"
  by (simp add: recordOnset_def Let_def)

lemma detectOnset_shape:
  "\<exists>s'. estimatedBPM s' = estimatedBPM s \<and> bpmLocked s' = bpmLocked s
        \<and> lockedBPM s' = lockedBPM s \<and> onsetTimes s' = onsetTimes s
        \<and> (detectOnset now f b s = (False, s') \<or> detectOnset now f b s = (True, recordOnset now s'))"
proof -
  define energy where "energy = lastEnergy s * smoothing s + frameEnergy f b * (1 - smoothing s)"
  define history where "history =
    (if length (energyHistory s @ [energy]) > historySize then tl (energyHistory s @ [energy])
     else energyHistory s @ [energy])"
  define s1 where "s1 = s\<lparr>lastEnergy := energy, energyHistory := history\<rparr>"
  define s2 where "s2 = s1\<lparr>threshold := adaptiveThreshold history (sensitivity s1)\<rparr>"
  define s3 where "s3 = s2\<lparr>lastOnsetTime := now\<rparr>"
  have d: "detectOnset now f b s =
      (if length history < 10 then (False, s1)
       else if energy > threshold s2 \<and> now - lastOnsetTime s2 > minOnsetInterval
            then (True, recordOnset now s3) else (False, s2))"
    unfolding detectOnset_def Let_def s3_def s2_def s1_def history_def energy_def
    by (rule refl)
  have k1: "estimatedBPM s1 = estimatedBPM s \<and> bpmLocked s1 = bpmLocked s
        \<and> lockedBPM s1 = lockedBPM s \<and> onsetTimes s1 = onsetTimes s"
    by (simp add: s1_def)
  have k2: "estimatedBPM s2 = estimatedBPM s \<and> bpmLocked s2 = bpmLocked s
        \<and> lockedBPM s2 = lockedBPM s \<and> onsetTimes s2 = onsetTimes s"
    using k1 by (simp add: s2_def)
  have k3: "estimatedBPM s3 = estimatedBPM s \<and> bpmLocked s3 = bpmLocked s
        \<and> lockedBPM s3 = lockedBPM s \<and> onsetTimes s3 = onsetTimes s"
    using k2 by (simp add: s3_def)
  consider (cold) "detectOnset now f b s = (False, s1)"
    | (quiet) "detectOnset now f b s = (False, s2)"
    | (onset) "detectOnset now f b s = (True, recordOnset now s3)"
    unfolding d by presburger
  then show ?thesis
  proof cases
    case cold
    then show ?thesis using k1 by blast
  next
    case quiet
    then show ?thesis using k2 by blast
  next
    case onset
    then show ?thesis using k3 by blast
  qed
qed

lemma detectOnset_other:
  "bpmLocked (snd (detectOnset now f b s)) = bpmLocked s"
  "lockedBPM (snd (detectOnset now f b s)) = lockedBPM s"
  using detectOnset_shape [of s now f b] by (auto simp: recordOnset_other)

lemma detectOnset_range:
  assumes "120 \<le> estimatedBPM s \<and> estimatedBPM s \<le> 190"
  shows "120 \<le> estimatedBPM (snd (detectOnset now f b s))
       \<and> estimatedBPM (snd (detectOnset now f b s)) \<le> 190"
proof -
  obtain s' where s': "estimatedBPM s' = estimatedBPM s"
    "detectOnset now f b s = (False, s') \<or> detectOnset now f b s = (True, recordOnset now s')"
    using detectOnset_shape [of s now f b] by blast
  have "120 \<le> estimatedBPM (recordOnset now s') \<and> estimatedBPM (recordOnset now s') \<le> 190"
    using assms s'(1) recordOnset_range [of s' now] by simp
  then show ?thesis using s' assms by auto
qed

lemma detectOnset_locked_estimate:
  assumes "bpmLocked s"
  shows "estimatedBPM (snd (detectOnset now f b s)) = estimatedBPM s"
proof -
  obtain s' where s': "estimatedBPM s' = estimatedBPM s" "bpmLocked s' = bpmLocked s"
    "detectOnset now f b s = (False, s') \<or> detectOnset now f b s = (True, recordOnset now s')"
    using detectOnset_shape [of s now f b] by blast
  have "estimatedBPM (recordOnset now s') = estimatedBPM s"
    using assms s' by (simp add: recordOnset_locked)
  then show ?thesis using s' by auto
qed

lemma applyOp_inRange: "bpmInRange s \<Longrightarrow> bpmInRange (applyOp x s)"
proof (cases x)
  case (DetectOnset now f b)
  assume "bpmInRange s"
  then show ?thesis
    using detectOnset_range [of s now f b] DetectOnset
    by (simp add: bpmInRange_def detectOnset_other)
qed (simp_all add: bpmInRange_def setSensitivity_def setSmoothing_def lockBPM_def
      unlockBPM_def reset_def)

lemma applyOps_inRange: "bpmInRange s \<Longrightarrow> bpmInRange (applyOps xs s)"
  by (induction xs arbitrary: s) (simp_all add: applyOp_inRange)

text \<open>
  Claim C10.  After any sequence of the detector's public operations on a new detector
  (setting sensitivity or smoothing, detecting onsets on any frames at any clock
  readings, locking, unlocking, resetting), \<open>estimatedBPM\<close> and \<open>lockedBPM\<close> lie in
  [120, 190], and so does the value \<open>getEstimatedBPM\<close> returns.
\<close>

theorem reported_bpm_in_range:
  "120 \<le> estimatedBPM (applyOps xs (newBeatDetector rate))
   \<and> estimatedBPM (applyOps xs (newBeatDetector rate)) \<le> 190
   \<and> 120 \<le> lockedBPM (applyOps xs (newBeatDetector rate))
   \<and> lockedBPM (applyOps xs (newBeatDetector rate)) \<le> 190
   \<and> 120 \<le> getEstimatedBPM (applyOps xs (newBeatDetector rate))
   \<and> getEstimatedBPM (applyOps xs (newBeatDetector rate)) \<le> 190"
proof -
  have "bpmInRange (newBeatDetector rate)"
    by (simp add: bpmInRange_def newBeatDetector_def)
  then have "bpmInRange (applyOps xs (newBeatDetector rate))"
    by (rule applyOps_inRange)
  then show ?thesis
    by (simp add: bpmInRange_def getEstimatedBPM_def)
qed

lemma recordOnsets_locked:
  "bpmLocked s \<Longrightarrow>
     bpmLocked (recordOnsets ts s) \<and> estimatedBPM (recordOnsets ts s) = estimatedBPM s
     \<and> lockedBPM (recordOnsets ts s) = lockedBPM s"
proof (induction ts arbitrary: s)
  case Nil
  then show ?case by simp
next
  case (Cons t ts)
  have l: "bpmLocked (recordOnset t s)" using Cons.prems by (simp add: recordOnset_other)
  have e: "estimatedBPM (recordOnset t s) = estimatedBPM s"
    using Cons.prems by (simp add: recordOnset_locked)
  show ?case using Cons.IH [OF l] e by (simp add: recordOnset_other)
qed

lemma recordOnsets_locked_times:
  "bpmLocked s \<Longrightarrow> length (onsetTimes s) \<le> maxOnsets \<Longrightarrow>
     onsetTimes (recordOnsets ts s)
       = drop (length (onsetTimes s @ ts) - maxOnsets) (onsetTimes s @ ts)"
proof (induction ts arbitrary: s)
  case Nil
  then show ?case by simp
next
  case (Cons t ts)
  let ?xs = "onsetTimes s"
  let ?s = "recordOnset t s"
  have l: "bpmLocked ?s" using Cons.prems by (simp add: recordOnset_other)
  show ?case
  proof (cases "length ?xs = maxOnsets")
    case True
    then have ne: "?xs \<noteq> []" by (auto simp: maxOnsets_def)
    have o: "onsetTimes ?s = tl ?xs @ [t]"
      using Cons.prems True ne by (simp add: recordOnset_locked)
    have len: "length (onsetTimes ?s) \<le> maxOnsets" using True ne o by (simp add: maxOnsets_def)
    have n: "length (onsetTimes ?s @ ts) - maxOnsets = length ts"
      using o True ne by (simp add: maxOnsets_def)
    have m: "length (?xs @ t # ts) - maxOnsets = Suc (length ts)"
      using True by simp
    have d: "onsetTimes ?s @ ts = drop 1 (?xs @ t # ts)"
      using o ne by (cases ?xs) simp_all
    have "onsetTimes (recordOnsets ts ?s) = drop (length ts) (onsetTimes ?s @ ts)"
      using Cons.IH [OF l len] unfolding n .
    also have "\<dots> = drop (length ts) (drop 1 (?xs @ t # ts))"
      by (simp only: d)
    also have "\<dots> = drop (Suc (length ts)) (?xs @ t # ts)"
      by (simp only: drop_drop) simp
    finally show ?thesis unfolding m by simp
  next
    case False
    then have lt: "length ?xs < maxOnsets" using Cons.prems by simp
    have o: "onsetTimes ?s = ?xs @ [t]"
      using Cons.prems lt by (simp add: recordOnset_locked)
    have len: "length (onsetTimes ?s) \<le> maxOnsets" using lt o by simp
    show ?thesis using Cons.IH [OF l len] o by simp
  qed
qed

lemma detectOnsets_locked:
  "bpmLocked s \<Longrightarrow>
     bpmLocked (snd (detectOnsets frames s))
     \<and> estimatedBPM (snd (detectOnsets frames s)) = estimatedBPM s
     \<and> lockedBPM (snd (detectOnsets frames s)) = lockedBPM s"
proof (induction frames arbitrary: s)
  case Nil
  then show ?case by simp
next
  case (Cons fr frames)
  obtain now f b where fr: "fr = (now, f, b)" by (cases fr) auto
  let ?s = "snd (detectOnset now f b s)"
  have l: "bpmLocked ?s" using Cons.prems by (simp add: detectOnset_other)
  have e: "estimatedBPM ?s = estimatedBPM s"
    using Cons.prems by (rule detectOnset_locked_estimate)
  have "snd (detectOnsets (fr # frames) s) = snd (detectOnsets frames ?s)"
    by (simp add: fr case_prod_unfold Let_def)
  then show ?case using Cons.IH [OF l] e by (simp add: detectOnset_other)
qed

text \<open>
  Claim C3.  After \<open>lockBPM\<close>, any run of \<open>recordOnset\<close> calls leaves the value of
  \<open>getEstimatedBPM\<close> equal to the estimate at lock time (the snapshot), triggers no
  re-estimation (\<open>estimatedBPM\<close> is unchanged) and keeps the detector locked, while the
  timestamps are still stored: the onset list is the last \<open>maxOnsets\<close> entries of the old
  list followed by the new timestamps.  The same holds for the reported BPM through any
  run of \<open>detectOnset\<close> calls.  The stored list is within its capacity to begin with.
\<close>

theorem lock_is_absorbing:
  assumes "length (onsetTimes s) \<le> maxOnsets"
  shows "getEstimatedBPM (recordOnsets ts (lockBPM s)) = estimatedBPM s
       \<and> getEstimatedBPM (recordOnsets ts (lockBPM s)) = getEstimatedBPM (lockBPM s)
       \<and> estimatedBPM (recordOnsets ts (lockBPM s)) = estimatedBPM s
       \<and> bpmLocked (recordOnsets ts (lockBPM s))
       \<and> onsetTimes (recordOnsets ts (lockBPM s))
           = drop (length (onsetTimes s @ ts) - maxOnsets) (onsetTimes s @ ts)
       \<and> getEstimatedBPM (snd (detectOnsets frames (lockBPM s))) = estimatedBPM s"
proof -
  have l: "bpmLocked (lockBPM s)" "lockedBPM (lockBPM s) = estimatedBPM s"
    "estimatedBPM (lockBPM s) = estimatedBPM s" "onsetTimes (lockBPM s) = onsetTimes s"
    by (simp_all add: lockBPM_def)
  have len: "length (onsetTimes (lockBPM s)) \<le> maxOnsets" using assms l by simp
  show ?thesis
    using recordOnsets_locked [OF l(1), of ts] recordOnsets_locked_times [OF l(1) len, of ts]
      detectOnsets_locked [OF l(1), of frames] l
    by (simp add: getEstimatedBPM_def)
qed

theorem lock_is_absorbing_witness:
  "length (onsetTimes (newBeatDetector 44100)) \<le> maxOnsets
   \<and> getEstimatedBPM (recordOnsets [0, 400, 800, 1200, 1600] (lockBPM (newBeatDetector 44100))) = 140
   \<and> onsetTimes (recordOnsets [0, 400, 800, 1200, 1600] (lockBPM (newBeatDetector 44100)))
       = [0, 400, 800, 1200, 1600]
   \<and> getEstimatedBPM (snd (detectOnsets [(1000, [1], [1])] (lockBPM (newBeatDetector 44100)))) = 140"
proof -
  have h: "length (onsetTimes (newBeatDetector 44100)) \<le> maxOnsets"
    by (simp add: newBeatDetector_def)
  have v: "estimatedBPM (newBeatDetector 44100) = 140" "onsetTimes (newBeatDetector 44100) = []"
    by (simp_all add: newBeatDetector_def)
  from lock_is_absorbing [OF h, of "[0, 400, 800, 1200, 1600]" "[(1000, [1], [1])]"] h
  show ?thesis unfolding v by (simp add: maxOnsets_def)
qed

section \<open>Properties of the onset detector\<close>

text \<open>
  Claim C5, as amended.  The guard counts the sample of the current frame: when the
  energy history holds fewer than 9 samples before the call, \<open>detectOnset\<close> returns
  false whatever the frame, the sensitivity and the smoothing are, and records no onset;
  and whenever the history after the call holds fewer than 10 samples, the call returned
  false.
\<close>

theorem cold_start_guard:
  "(length (energyHistory s) < 9 \<longrightarrow>
      \<not> fst (detectOnset now f b s)
      \<and> onsetTimes (snd (detectOnset now f b s)) = onsetTimes s
      \<and> estimatedBPM (snd (detectOnset now f b s)) = estimatedBPM s
      \<and> lastOnsetTime (snd (detectOnset now f b s)) = lastOnsetTime s)
   \<and> (length (energyHistory (snd (detectOnset now f b s))) < 10 \<longrightarrow>
      \<not> fst (detectOnset now f b s))"
proof -
  define energy where "energy = lastEnergy s * smoothing s + frameEnergy f b * (1 - smoothing s)"
  define history where "history =
    (if length (energyHistory s @ [energy]) > historySize then tl (energyHistory s @ [energy])
     else energyHistory s @ [energy])"
  define s1 where "s1 = s\<lparr>lastEnergy := energy, energyHistory := history\<rparr>"
  define s2 where "s2 = s1\<lparr>threshold := adaptiveThreshold history (sensitivity s1)\<rparr>"
  define s3 where "s3 = s2\<lparr>lastOnsetTime := now\<rparr>"
  have d: "detectOnset now f b s =
      (if length history < 10 then (False, s1)
       else if energy > threshold s2 \<and> now - lastOnsetTime s2 > minOnsetInterval
            then (True, recordOnset now s3) else (False, s2))"
    unfolding detectOnset_def Let_def s3_def s2_def s1_def history_def energy_def
    by (rule refl)
  have h3: "energyHistory (recordOnset now s3) = history"
    by (simp add: recordOnset_def estimateBPM_def convertAndSmooth_def Let_def s3_def s2_def s1_def)
  have first: "detectOnset now f b s = (False, s1)" if "length (energyHistory s) < 9"
  proof -
    have "length history < 10" using that by (simp add: history_def historySize_def)
    then show ?thesis by (simp add: d)
  qed
  have second: "\<not> fst (detectOnset now f b s)"
    if "length (energyHistory (snd (detectOnset now f b s))) < 10"
  proof (cases "length history < 10")
    case True
    then show ?thesis by (simp add: d)
  next
    case False
    have "energyHistory (snd (detectOnset now f b s)) = history"
      using False h3 by (simp add: d s2_def s1_def)
    then show ?thesis using that False by simp
  qed
  show ?thesis using first second by (auto simp: s1_def)
qed

theorem cold_start_guard_witness:
  "length (energyHistory (newBeatDetector 44100)) < 9
   \<and> \<not> fst (detectOnset 1000 [1] [1] (newBeatDetector 44100))
   \<and> onsetTimes (snd (detectOnset 1000 [1] [1] (newBeatDetector 44100))) = []"
proof -
  have h: "length (energyHistory (newBeatDetector 44100)) < 9"
    by (simp add: newBeatDetector_def)
  have o: "onsetTimes (newBeatDetector 44100) = []"
    by (simp add: newBeatDetector_def)
  from cold_start_guard [of "newBeatDetector 44100" 1000 "[1]" "[1]"] h o show ?thesis
    by simp
qed

lemma silent_frame: "frameEnergy [0] [0] = 0"
  by (simp add: frameEnergy_def)

lemma loud_frame: "frameEnergy [1] [1] = 1"
  by (simp add: frameEnergy_def)

lemma nine_silent_frames:
  "snd (detectOnsets [(100, [0], [0]), (200, [0], [0]), (300, [0], [0]), (400, [0], [0]),
         (500, [0], [0]), (600, [0], [0]), (700, [0], [0]), (800, [0], [0]), (900, [0], [0])]
        (newBeatDetector 44100))
   = (newBeatDetector 44100)\<lparr>energyHistory := [0, 0, 0, 0, 0, 0, 0, 0, 0]\<rparr>"
  by (simp add: detectOnset_def silent_frame newBeatDetector_def historySize_def Let_def)

lemma tenth_threshold:
  "adaptiveThreshold [0, 0, 0, 0, 0, 0, 0, 0, 0, 1 / 5] (1 / 2) = 2 / 25"
proof -
  have "sqrt (9 / 2500) = 3 / 50"
    by (rule real_sqrt_unique) (simp_all add: power2_eq_square)
  then show ?thesis
    by (simp add: adaptiveThreshold_def Let_def power2_eq_square)
qed

text \<open>
  Claim C5 as stated fails when the history holds 9 samples: after nine silent frames on
  a new detector the history holds 9 samples, and a loud tenth frame at 1000 ms is
  reported as an onset.
\<close>

theorem tenth_frame_fires:
  "length (energyHistory (snd (detectOnsets
       [(100, [0], [0]), (200, [0], [0]), (300, [0], [0]), (400, [0], [0]),
        (500, [0], [0]), (600, [0], [0]), (700, [0], [0]), (800, [0], [0]), (900, [0], [0])]
       (newBeatDetector 44100)))) = 9
   \<and> fst (detectOnset 1000 [1] [1] (snd (detectOnsets
       [(100, [0], [0]), (200, [0], [0]), (300, [0], [0]), (400, [0], [0]),
        (500, [0], [0]), (600, [0], [0]), (700, [0], [0]), (800, [0], [0]), (900, [0], [0])]
       (newBeatDetector 44100))))"
  unfolding nine_silent_frames
  by (simp add: detectOnset_def loud_frame newBeatDetector_def historySize_def Let_def
      tenth_threshold minOnsetInterval_def)

section \<open>Acceptance and smoothing of a candidate\<close>

text \<open>
  Claim C6.  In the conversion step of the re-estimation, a candidate
  \<open>round(60000 / bestInterval)\<close> outside [120, 190] leaves the detector unchanged, and a
  candidate inside it replaces the estimate by the smoothed value.  \<open>estimateBPM\<close>
  either leaves the detector unchanged or is this step on the most common bucket, so the
  estimate changes only when the candidate lies in [120, 190].
\<close>

theorem candidate_gate:
  "(\<not> (120 \<le> jsRound (60000 / of_int b) \<and> jsRound (60000 / of_int b) \<le> 190) \<longrightarrow>
      convertAndSmooth b s = s)
   \<and> (120 \<le> jsRound (60000 / of_int b) \<and> jsRound (60000 / of_int b) \<le> 190 \<longrightarrow>
      convertAndSmooth b s
        = s\<lparr>estimatedBPM := smoothBPM (estimatedBPM s) (jsRound (60000 / of_int b))\<rparr>)
   \<and> (estimateBPM s = s
      \<or> estimateBPM s
          = convertAndSmooth (mostCommon (fillBuckets (onsetIntervals (onsetTimes s)) []) 0 428) s)
   \<and> (estimatedBPM (estimateBPM s) \<noteq> estimatedBPM s \<longrightarrow>
      120 \<le> jsRound (60000 / of_int (mostCommon (fillBuckets (onsetIntervals (onsetTimes s)) []) 0 428))
      \<and> jsRound (60000 / of_int (mostCommon (fillBuckets (onsetIntervals (onsetTimes s)) []) 0 428)) \<le> 190)"
proof -
  let ?b = "mostCommon (fillBuckets (onsetIntervals (onsetTimes s)) []) 0 428"
  have e: "estimateBPM s = s \<or> estimateBPM s = convertAndSmooth ?b s"
    by (simp add: estimateBPM_def Let_def)
  have "estimatedBPM (convertAndSmooth ?b s) \<noteq> estimatedBPM s \<longrightarrow>
      120 \<le> jsRound (60000 / of_int ?b) \<and> jsRound (60000 / of_int ?b) \<le> 190"
    by (simp add: convertAndSmooth_cases)
  then have "estimatedBPM (estimateBPM s) \<noteq> estimatedBPM s \<longrightarrow>
      120 \<le> jsRound (60000 / of_int ?b) \<and> jsRound (60000 / of_int ?b) \<le> 190"
    using e by metis
  then show ?thesis using e by (simp add: convertAndSmooth_cases)
qed

theorem candidate_gate_witness:
  "\<not> (120 \<le> jsRound (60000 / of_int 300) \<and> jsRound (60000 / of_int 300) \<le> 190)
   \<and> convertAndSmooth 300 (newBeatDetector 44100) = newBeatDetector 44100
   \<and> 120 \<le> jsRound (60000 / of_int 400) \<and> jsRound (60000 / of_int 400) \<le> 190
   \<and> estimatedBPM (convertAndSmooth 400 (newBeatDetector 44100)) = 143"
proof -
  have a: "jsRound (60000 / of_int 300) = 200" "jsRound (60000 / of_int 400) = 150"
    by (simp_all add: jsRound_def)
  have b: "smoothBPM 140 150 = 143"
    by (simp add: smoothBPM_def jsRound_def)
  from candidate_gate [of 300 "newBeatDetector 44100"] candidate_gate [of 400 "newBeatDetector 44100"]
  show ?thesis unfolding a using b by (simp add: newBeatDetector_def)
qed

lemma convertAndSmooth_steady:
  "jsRound (60000 / of_int b) = estimatedBPM s \<Longrightarrow> convertAndSmooth b s = s"
  by (simp add: convertAndSmooth_cases smoothBPM_same)

text \<open>
  Claim C7.  When the candidate equals the current estimate, any number of smoothing
  updates leaves the estimate the same: for the smoothing expression itself, and for the
  conversion step of the detector applied \<open>n\<close> times.
\<close>

theorem smoothing_steady_state:
  "((\<lambda>e. smoothBPM e c) ^^ n) c = c
   \<and> (jsRound (60000 / of_int b) = estimatedBPM s \<longrightarrow> (convertAndSmooth b ^^ n) s = s)"
proof -
  have 1: "((\<lambda>e. smoothBPM e c) ^^ n) c = c"
    by (induction n) (simp_all add: smoothBPM_same)
  have 2: "(convertAndSmooth b ^^ n) s = s" if "jsRound (60000 / of_int b) = estimatedBPM s"
    by (induction n) (simp_all add: convertAndSmooth_steady that)
  show ?thesis using 1 2 by blast
qed

theorem smoothing_steady_state_witness:
  "jsRound (60000 / of_int 400) = estimatedBPM ((newBeatDetector 44100)\<lparr>estimatedBPM := 150\<rparr>)
   \<and> (convertAndSmooth 400 ^^ 3) ((newBeatDetector 44100)\<lparr>estimatedBPM := 150\<rparr>)
       = (newBeatDetector 44100)\<lparr>estimatedBPM := 150\<rparr>
   \<and> ((\<lambda>e. smoothBPM e 150) ^^ 3) 150 = 150"
proof -
  have h: "jsRound (60000 / of_int 400) = estimatedBPM ((newBeatDetector 44100)\<lparr>estimatedBPM := 150\<rparr>)"
    by (simp add: jsRound_def)
  from smoothing_steady_state [where c = 150 and n = 3 and b = 400
      and s = "(newBeatDetector 44100)\<lparr>estimatedBPM := 150\<rparr>"] h
  show ?thesis by blast
qed

section \<open>Onsets at a constant interval\<close>

lemma spaced_tl: "spaced I xs \<Longrightarrow> spaced I (tl xs)"
  by (induction I xs rule: spaced.induct) simp_all

lemma spaced_snoc:
  "spaced I xs \<Longrightarrow> xs = [] \<or> t - last xs = I \<Longrightarrow> spaced I (xs @ [t])"
  by (induction I xs rule: spaced.induct) auto

lemma onsetIntervals_spaced:
  "315 < I \<Longrightarrow> I < 500 \<Longrightarrow> spaced I xs \<Longrightarrow> onsetIntervals xs = replicate (length xs - 1) I"
  by (induction I xs rule: spaced.induct) (simp_all add: Let_def)

lemma fillBuckets_same:
  "fillBuckets (replicate n I) [(jsRound (I / 10) * 10, m)] = [(jsRound (I / 10) * 10, m + n)]"
  by (induction n arbitrary: m) (simp_all add: Let_def bucketGet_def)

lemma fillBuckets_replicate:
  "fillBuckets (replicate (Suc n) I) [] = [(jsRound (I / 10) * 10, Suc n)]"
  using fillBuckets_same [of n I 1] by (simp add: Let_def bucketGet_def)

lemma bucket_range:
  assumes "315 < I" "I < 500"
  shows "32 \<le> jsRound (I / 10) \<and> jsRound (I / 10) \<le> 50"
  using assms unfolding jsRound_def by (simp add: le_floor_iff floor_le_iff)

lemma steadyCandidate_range:
  assumes "315 < I" "I < 500"
  shows "120 \<le> steadyCandidate I \<and> steadyCandidate I \<le> 188"
proof -
  define k where "k = jsRound (I / 10)"
  have k: "32 \<le> k" "k \<le> 50" using bucket_range [OF assms] by (simp_all add: k_def)
  have r: "(32::real) \<le> of_int k" "(of_int k :: real) \<le> 50" using k by simp_all
  have pos: "(0::real) < of_int k * 10" using r by simp
  define x :: real where "x = 60000 / of_int (k * 10)"
  have lo: "120 \<le> x"
    unfolding x_def using r pos by (simp add: le_divide_eq)
  have hi: "x \<le> 1875 / 10"
    unfolding x_def using r pos by (simp add: divide_le_eq)
  have "120 \<le> \<lfloor>x + 1 / 2\<rfloor> \<and> \<lfloor>x + 1 / 2\<rfloor> \<le> 188"
    using lo hi by (simp add: le_floor_iff floor_le_iff)
  then show ?thesis
    unfolding x_def k_def steadyCandidate_def jsRound_def .
qed

lemma estimateBPM_spaced:
  assumes "315 < I" "I < 500" "spaced I (onsetTimes s)" "4 \<le> length (onsetTimes s)"
  shows "estimateBPM s = s\<lparr>estimatedBPM := smoothBPM (estimatedBPM s) (steadyCandidate I)\<rparr>"
proof -
  define n where "n = length (onsetTimes s) - 2"
  have n: "length (onsetTimes s) - 1 = Suc n" "1 \<le> n"
    using assms(4) by (simp_all add: n_def)
  have i: "onsetIntervals (onsetTimes s) = replicate (Suc n) I"
    using onsetIntervals_spaced [OF assms(1-3)] n by simp
  have m: "mostCommon (fillBuckets (replicate (Suc n) I) []) 0 428 = jsRound (I / 10) * 10"
    by (simp only: fillBuckets_replicate) simp
  have c: "120 \<le> steadyCandidate I \<and> steadyCandidate I \<le> 190"
    using steadyCandidate_range [OF assms(1,2)] by simp
  have "estimateBPM s = convertAndSmooth (jsRound (I / 10) * 10) s"
    using assms(4) n by (simp add: estimateBPM_def Let_def i m del: replicate.simps)
  then show ?thesis
    using c by (simp add: convertAndSmooth_cases steadyCandidate_def)
qed

lemma steadyOnsets_Suc:
  "steadyOnsets t0 I (Suc n) = steadyOnsets t0 I n @ [t0 + of_nat n * I]"
  by (simp add: steadyOnsets_def)

lemma recordOnsets_snoc: "recordOnsets (xs @ [t]) s = recordOnset t (recordOnsets xs s)"
  by (induction xs arbitrary: s) simp_all

lemma last_tl: "2 \<le> length xs \<Longrightarrow> last (tl xs) = last xs"
  by (cases xs) auto

lemma recordOnset_spaced_step:
  assumes I: "315 < I" "I < 500"
    and u: "\<not> bpmLocked s"
    and sp: "spaced I (onsetTimes s)"
    and len: "length (onsetTimes s) = min n maxOnsets"
    and la: "onsetTimes s = [] \<or> t - last (onsetTimes s) = I"
  shows "\<not> bpmLocked (recordOnset t s)"
    and "spaced I (onsetTimes (recordOnset t s))"
    and "length (onsetTimes (recordOnset t s)) = min (Suc n) maxOnsets"
    and "last (onsetTimes (recordOnset t s)) = t"
    and "estimatedBPM (recordOnset t s)
          = (if 3 \<le> n then smoothBPM (estimatedBPM s) (steadyCandidate I) else estimatedBPM s)"
proof -
  define times1 where "times1 = onsetTimes s @ [t]"
  define times where "times = (if length times1 > maxOnsets then tl times1 else times1)"
  define s' where "s' = s\<lparr>onsetTimes := times\<rparr>"
  have r: "recordOnset t s = estimateBPM s'"
    using u by (simp add: recordOnset_def Let_def s'_def times_def times1_def)
  have sp1: "spaced I times1"
    unfolding times1_def using sp la by (rule spaced_snoc)
  have sp': "spaced I (onsetTimes s')"
    using sp1 by (simp add: s'_def times_def spaced_tl)
  have len1: "length times1 = Suc (min n maxOnsets)"
    by (simp add: times1_def len)
  have len': "length (onsetTimes s') = min (Suc n) maxOnsets"
    using len1 by (auto simp add: s'_def times_def maxOnsets_def min_def)
  have last1: "last times1 = t" by (simp add: times1_def)
  have last': "last (onsetTimes s') = t"
  proof (cases "length times1 > maxOnsets")
    case True
    then have "2 \<le> length times1" by (simp add: maxOnsets_def)
    then show ?thesis using True last1 by (simp add: s'_def times_def last_tl)
  next
    case False
    then show ?thesis using last1 by (simp add: s'_def times_def)
  qed
  have e': "estimatedBPM s' = estimatedBPM s" by (simp add: s'_def)
  have est: "estimatedBPM (estimateBPM s')
      = (if 3 \<le> n then smoothBPM (estimatedBPM s) (steadyCandidate I) else estimatedBPM s)"
  proof (cases "3 \<le> n")
    case True
    then have "4 \<le> length (onsetTimes s')" using len' by (simp add: maxOnsets_def)
    then show ?thesis
      using estimateBPM_spaced [OF I sp'] True e' by simp
  next
    case False
    then have "length (onsetTimes s') < 4" using len' by (simp add: maxOnsets_def)
    then show ?thesis using False e' by (simp add: estimateBPM_def)
  qed
  show "\<not> bpmLocked (recordOnset t s)" using u by (simp add: recordOnset_other)
  show "spaced I (onsetTimes (recordOnset t s))" using sp' by (simp add: r estimateBPM_other)
  show "length (onsetTimes (recordOnset t s)) = min (Suc n) maxOnsets"
    using len' by (simp add: r estimateBPM_other)
  show "last (onsetTimes (recordOnset t s)) = t" using last' by (simp add: r estimateBPM_other)
  show "estimatedBPM (recordOnset t s)
          = (if 3 \<le> n then smoothBPM (estimatedBPM s) (steadyCandidate I) else estimatedBPM s)"
    using est by (simp add: r)
qed

lemma steady_run:
  assumes I: "315 < I" "I < 500" and e: "onsetTimes s = []" and u: "\<not> bpmLocked s"
  shows "\<not> bpmLocked (recordOnsets (steadyOnsets t0 I n) s)
       \<and> spaced I (onsetTimes (recordOnsets (steadyOnsets t0 I n) s))
       \<and> length (onsetTimes (recordOnsets (steadyOnsets t0 I n) s)) = min n maxOnsets
       \<and> (0 < n \<longrightarrow> last (onsetTimes (recordOnsets (steadyOnsets t0 I n) s))
                       = t0 + of_nat (n - 1) * I)
       \<and> estimatedBPM (recordOnsets (steadyOnsets t0 I n) s)
           = ((\<lambda>e. smoothBPM e (steadyCandidate I)) ^^ (n - 3)) (estimatedBPM s)"
proof (induction n)
  case 0
  then show ?case using e u by (simp add: steadyOnsets_def)
next
  case (Suc n)
  let ?s = "recordOnsets (steadyOnsets t0 I n) s"
  let ?t = "t0 + of_nat n * I"
  have step: "recordOnsets (steadyOnsets t0 I (Suc n)) s = recordOnset ?t ?s"
    by (simp only: steadyOnsets_Suc recordOnsets_snoc)
  have la: "onsetTimes ?s = [] \<or> ?t - last (onsetTimes ?s) = I"
  proof (cases n)
    case 0
    then show ?thesis using e by (simp add: steadyOnsets_def)
  next
    case (Suc m)
    then have "last (onsetTimes ?s) = t0 + of_nat m * I" using Suc.IH by simp
    then show ?thesis using Suc by (simp add: algebra_simps)
  qed
  note S = recordOnset_spaced_step [OF I, of ?s n ?t]
  have u': "\<not> bpmLocked ?s" and sp: "spaced I (onsetTimes ?s)"
    and len: "length (onsetTimes ?s) = min n maxOnsets"
    using Suc.IH by simp_all
  have it: "((\<lambda>e. smoothBPM e (steadyCandidate I)) ^^ (Suc n - 3)) (estimatedBPM s)
      = (if 3 \<le> n then smoothBPM (estimatedBPM ?s) (steadyCandidate I) else estimatedBPM ?s)"
  proof (cases "3 \<le> n")
    case True
    then have "Suc n - 3 = Suc (n - 3)" by simp
    then show ?thesis using True Suc.IH by simp
  next
    case False
    then show ?thesis using Suc.IH by simp
  qed
  show ?case
    unfolding step
    using S(1) [OF u' sp len la] S(2) [OF u' sp len la] S(3) [OF u' sp len la]
      S(4) [OF u' sp len la] S(5) [OF u' sp len la] it
    by simp
qed

lemma iterate_distance:
  "\<bar>c - ((\<lambda>e. smoothBPM e c) ^^ k) e\<bar> \<le> max 1 (\<bar>c - e\<bar> - int k)"
proof (induction k)
  case 0
  then show ?case by simp
next
  case (Suc k)
  show ?case
    using smoothBPM_step [of c "((\<lambda>e. smoothBPM e c) ^^ k) e"] Suc.IH by simp
qed

lemma iterate_eq_iff: "((\<lambda>e. smoothBPM e c) ^^ k) e = c \<longleftrightarrow> e = c"
  by (induction k) (simp_all add: smoothBPM_eq_iff)

lemma smoothBPM_below: "e < c \<Longrightarrow> smoothBPM e c < c"
  using smoothBPM_lower [of e c] by linarith

lemma iterate_below: "e < c \<Longrightarrow> ((\<lambda>e. smoothBPM e c) ^^ k) e < c"
  by (induction k) (simp_all add: smoothBPM_below)

text \<open>
  Claim C2, as amended.  Onsets at a constant interval \<open>I\<close> with \<open>315 < I < 500\<close> are
  recorded by an unlocked detector that holds no onsets.  The candidate is
  \<open>c = round(60000 / (10 * round(I / 10)))\<close>, which lies in [120, 188].  The first
  three onsets leave the estimate alone and every later one replaces it by
  \<open>round(0.7 * estimate + 0.3 * c)\<close>; the distance to \<open>c\<close> never grows; from onset
  number \<open>3 + |c - initial estimate|\<close> on the estimate is constant and within 1 BPM of
  \<open>c\<close>; and it equals \<open>c\<close> only when the initial estimate already was \<open>c\<close>.
\<close>

theorem steady_tempo_settles_near_candidate:
  assumes "315 < I" "I < 500" "onsetTimes s = []" "\<not> bpmLocked s"
  shows "let c = steadyCandidate I;
             E = (\<lambda>n. getEstimatedBPM (recordOnsets (steadyOnsets t0 I n) s))
         in 120 \<le> c \<and> c \<le> 188
          \<and> (\<forall>n. E (Suc n) = (if 3 \<le> n then smoothBPM (E n) c else E n))
          \<and> (\<forall>n. \<bar>c - E (Suc n)\<bar> \<le> \<bar>c - E n\<bar>)
          \<and> (\<forall>n. 3 + nat \<bar>c - estimatedBPM s\<bar> \<le> n \<longrightarrow> \<bar>c - E n\<bar> \<le> 1 \<and> E (Suc n) = E n)
          \<and> (\<forall>n. E n = c \<longleftrightarrow> estimatedBPM s = c)"
proof -
  define c where "c = steadyCandidate I"
  define E where "E = (\<lambda>n. getEstimatedBPM (recordOnsets (steadyOnsets t0 I n) s))"
  have run: "E n = ((\<lambda>e. smoothBPM e c) ^^ (n - 3)) (estimatedBPM s)" for n
    using steady_run [OF assms, of t0 n] by (simp add: E_def c_def getEstimatedBPM_def)
  have rng: "120 \<le> c \<and> c \<le> 188"
    unfolding c_def using assms(1,2) by (rule steadyCandidate_range)
  have step: "E (Suc n) = (if 3 \<le> n then smoothBPM (E n) c else E n)" for n
  proof (cases "3 \<le> n")
    case True
    then have "Suc n - 3 = Suc (n - 3)" by simp
    then show ?thesis using True by (simp add: run)
  next
    case False
    then show ?thesis by (simp add: run)
  qed
  have closer: "\<bar>c - E (Suc n)\<bar> \<le> \<bar>c - E n\<bar>" for n
    using smoothBPM_closer [of c "E n"] by (simp add: step)
  have near: "\<bar>c - E n\<bar> \<le> 1 \<and> E (Suc n) = E n" if "3 + nat \<bar>c - estimatedBPM s\<bar> \<le> n" for n
  proof -
    have "\<bar>c - estimatedBPM s\<bar> - int (n - 3) \<le> 0" using that by linarith
    then have d: "\<bar>c - E n\<bar> \<le> 1"
      using iterate_distance [of c "n - 3" "estimatedBPM s"] by (simp add: run)
    then have "smoothBPM (E n) c = E n" by (rule smoothBPM_fixed)
    then show ?thesis using d by (simp add: step)
  qed
  have only: "E n = c \<longleftrightarrow> estimatedBPM s = c" for n
    by (simp add: run iterate_eq_iff)
  show ?thesis
    unfolding Let_def c_def [symmetric] E_def [symmetric]
    using rng step closer near only by blast
qed

lemma candidate_400: "steadyCandidate 400 = 150"
  by (simp add: steadyCandidate_def jsRound_def)

lemma candidate_396: "steadyCandidate 396 = 150"
proof -
  have "jsRound (396 / 10) = 40" by (simp add: jsRound_def floor_eq_iff)
  then show ?thesis by (simp add: steadyCandidate_def) (simp add: jsRound_def)
qed

theorem steady_tempo_settles_near_candidate_witness:
  "(315::real) < 400 \<and> (400::real) < 500 \<and> onsetTimes (newBeatDetector 44100) = []
   \<and> \<not> bpmLocked (newBeatDetector 44100)
   \<and> \<bar>150 - getEstimatedBPM (recordOnsets (steadyOnsets 0 400 13) (newBeatDetector 44100))\<bar> \<le> 1
   \<and> getEstimatedBPM (recordOnsets (steadyOnsets 0 400 14) (newBeatDetector 44100))
       = getEstimatedBPM (recordOnsets (steadyOnsets 0 400 13) (newBeatDetector 44100))"
proof -
  have h: "(315::real) < 400" "(400::real) < 500" "onsetTimes (newBeatDetector 44100) = []"
    "\<not> bpmLocked (newBeatDetector 44100)"
    by (simp_all add: newBeatDetector_def)
  have n: "3 + nat \<bar>150 - estimatedBPM (newBeatDetector 44100)\<bar> \<le> 13"
    by (simp add: newBeatDetector_def)
  note T = steady_tempo_settles_near_candidate [OF h, of 0, unfolded Let_def candidate_400]
  from T n have "\<bar>150 - getEstimatedBPM (recordOnsets (steadyOnsets 0 400 13) (newBeatDetector 44100))\<bar> \<le> 1
     \<and> getEstimatedBPM (recordOnsets (steadyOnsets 0 400 (Suc 13)) (newBeatDetector 44100))
       = getEstimatedBPM (recordOnsets (steadyOnsets 0 400 13) (newBeatDetector 44100))"
    by blast
  then show ?thesis using h by simp
qed

text \<open>
  Claim C2 as stated fails on a new detector (estimate 140).  At interval 400 ms,
  \<open>round(60000 / 400)\<close> is 150 and the estimate never exceeds 149.  At interval 396 ms,
  \<open>round(60000 / 396)\<close> is 152 and the estimate never exceeds 149 either.
\<close>

theorem steady_tempo_misses_nominal_bpm:
  "jsRound (60000 / 400) = 150
   \<and> (\<forall>n. getEstimatedBPM (recordOnsets (steadyOnsets 0 400 n) (newBeatDetector 44100)) \<le> 149)
   \<and> jsRound (60000 / 396) = 152
   \<and> (\<forall>n. getEstimatedBPM (recordOnsets (steadyOnsets 0 396 n) (newBeatDetector 44100)) \<le> 149)"
proof -
  have h: "onsetTimes (newBeatDetector 44100) = []" "\<not> bpmLocked (newBeatDetector 44100)"
    "estimatedBPM (newBeatDetector 44100) = 140"
    by (simp_all add: newBeatDetector_def)
  have below: "((\<lambda>e. smoothBPM e 150) ^^ k) 140 \<le> 149" for k
    using iterate_below [of 140 150 k] by simp
  have a: "getEstimatedBPM (recordOnsets (steadyOnsets 0 400 n) (newBeatDetector 44100)) \<le> 149" for n
    using steady_run [of 400 "newBeatDetector 44100" 0 n] h below [of "n - 3"]
    by (simp add: getEstimatedBPM_def candidate_400)
  have b: "getEstimatedBPM (recordOnsets (steadyOnsets 0 396 n) (newBeatDetector 44100)) \<le> 149" for n
    using steady_run [of 396 "newBeatDetector 44100" 0 n] h below [of "n - 3"]
    by (simp add: getEstimatedBPM_def candidate_396)
  have c: "jsRound (60000 / 400) = 150" by (simp add: jsRound_def)
  have d: "jsRound (60000 / 396) = 152" by (simp add: jsRound_def floor_eq_iff)
  show ?thesis using a b c d by blast
qed

end
